theory Spec2Isabelle
  imports Main "HOL-Library.Char_ord"
begin

section \<open>Python values, errors and the collaborators\<close>

text \<open>
  The scraper of \<^verbatim>\<open>episodes_scraper.py\<close> handles dynamically typed values: a show id
  is an integer or a string, an episode number is a string (single episode), a list of
  integers (batch range) or \<^verbatim>\<open>None\<close>, and the set of collected numbers mixes strings
  and integers. One datatype of Python values keeps these apart, as Python's equality does
  (\<^verbatim>\<open>'5' != 5\<close>).
\<close>

datatype py_value = PNone | PInt int | PStr string | PList "int list"

datatype error =
  ValueError | AttributeError | TypeError | KeyError
  | RegexFailedToMatch | HorribleSubsException

text \<open>Truthiness of a Python value, as tested by \<^verbatim>\<open>not show_id\<close>.\<close>

fun truthy :: "py_value \<Rightarrow> bool" where
  "truthy PNone = False"
| "truthy (PInt i) = (i \<noteq> 0)"
| "truthy (PStr s) = (s \<noteq> [])"
| "truthy (PList xs) = (xs \<noteq> [])"

text \<open>
  Strings are lists of 8-bit characters. \<^verbatim>\<open>\d\<close> is taken as the ASCII digits and the
  letters of \<^verbatim>\<open>a-zA-Z\<close> as the ASCII letters (on text, Python's \<^verbatim>\<open>\d\<close> also accepts
  the decimal digits of other scripts, which \<^verbatim>\<open>int\<close> converts as well).
\<close>

definition is_digit :: "char \<Rightarrow> bool" where
  "is_digit c = (CHR ''0'' \<le> c \<and> c \<le> CHR ''9'')"

definition is_alpha :: "char \<Rightarrow> bool" where
  "is_alpha c = ((CHR ''a'' \<le> c \<and> c \<le> CHR ''z'') \<or> (CHR ''A'' \<le> c \<and> c \<le> CHR ''Z''))"

text \<open>
  \<^verbatim>\<open>int(s)\<close> on the strings that reach it here: the regex groups \<^verbatim>\<open>\d*\<close> and
  \<^verbatim>\<open>[.\da-zA-Z]*\<close> hold no sign, blank or underscore, so the conversion succeeds exactly
  on a non-empty string of decimal digits and raises \<^verbatim>\<open>ValueError\<close> otherwise.
\<close>

definition digit_val :: "char \<Rightarrow> int" where
  "digit_val c = int (of_char c) - 48"

definition py_int :: "string \<Rightarrow> error + int" where
  "py_int s =
     (if s \<noteq> [] \<and> list_all is_digit s
      then Inr (foldl (\<lambda>a c. 10 * a + digit_val c) 0 s)
      else Inl ValueError)"

text \<open>\<^verbatim>\<open>str(x)\<close>, used by \<^verbatim>\<open>str.format\<close> and for the thread names.\<close>

definition digit_char :: "nat \<Rightarrow> char" where
  "digit_char n = char_of (48 + n)"

fun str_nat :: "nat \<Rightarrow> string" where
  "str_nat n = (if n < 10 then [digit_char n] else str_nat (n div 10) @ [digit_char (n mod 10)])"

declare str_nat.simps [simp del]

definition str_int :: "int \<Rightarrow> string" where
  "str_int i = (if i < 0 then CHR ''-'' # str_nat (nat (- i)) else str_nat (nat i))"

fun join_comma :: "string list \<Rightarrow> string" where
  "join_comma [] = []"
| "join_comma [x] = x"
| "join_comma (x # y # ys) = x @ '', '' @ join_comma (y # ys)"

fun py_str :: "py_value \<Rightarrow> string" where
  "py_str PNone = ''None''"
| "py_str (PInt i) = str_int i"
| "py_str (PStr s) = s"
| "py_str (PList xs) = ''['' @ join_comma (map str_int xs) @ '']''"

text \<open>\<^verbatim>\<open>list(range(a, b))\<close> on integers.\<close>

definition py_range :: "int \<Rightarrow> int \<Rightarrow> int list" where
  "py_range a b = [a..b - 1]"

text \<open>
  A release block as the HTML collaborator returns it
  (\<^verbatim>\<open>soup.find_all(name='div', attrs={'class': 'release-links'})\<close>): what
  \<^verbatim>\<open>episode_div.find(name='i')\<close> and its \<^verbatim>\<open>.string\<close> give, and what
  \<^verbatim>\<open>episode_div.find(name='td', attrs={'class': 'hs-magnet-link'}).a.attrs['href']\<close> gives.
\<close>

datatype i_tag = NoITag | NoString | Text string

datatype magnet_tag = NoMagnetTag | NoAnchor | NoHref | Href string

record release_div =
  i_tag :: i_tag
  magnet_tag :: magnet_tag

text \<open>
  The collaborators that are not part of \<^verbatim>\<open>episodes_scraper.py\<close> are parameters:
  \<^verbatim>\<open>BaseScraper.get_html\<close> (url to body; transport errors are outside the model),
  BeautifulSoup's search for the release blocks of a body, in document order, and whether
  \<^verbatim>\<open>RegexFailedToMatch\<close> is declared a subclass of \<^verbatim>\<open>HorribleSubsException\<close> in
  \<^verbatim>\<open>exception.py\<close>.
\<close>

record collaborators =
  get_html :: "string \<Rightarrow> string"
  release_links :: "string \<Rightarrow> release_div list"
  regex_failed_is_hs_exception :: bool

section \<open>The regular expressions\<close>

text \<open>
  \<^verbatim>\<open>re.match\<close> anchors the pattern at the start of the string and not at its end. The
  three patterns are sequences of literals and greedy stars over character classes, so they
  are written with two combinators in continuation style: \<open>lit\<close> consumes a literal,
  \<open>star\<close> consumes the longest run of the class first and gives back one character at a
  time while the rest of the pattern fails (Python's backtracking order). The continuation
  of a star receives the text it matched, which is how a group is captured.
\<close>

definition lit :: "string \<Rightarrow> (string \<Rightarrow> 'a option) \<Rightarrow> string \<Rightarrow> 'a option" where
  "lit l k s = (if take (length l) s = l then k (drop (length l) s) else None)"

fun backtrack :: "(string \<Rightarrow> string \<Rightarrow> 'a option) \<Rightarrow> string \<Rightarrow> nat \<Rightarrow> 'a option" where
  "backtrack k s 0 = k [] s"
| "backtrack k s (Suc n) =
     (case k (take (Suc n) s) (drop (Suc n) s) of
        Some r \<Rightarrow> Some r
      | None \<Rightarrow> backtrack k s n)"

definition star :: "(char \<Rightarrow> bool) \<Rightarrow> (string \<Rightarrow> string \<Rightarrow> 'a option) \<Rightarrow> string \<Rightarrow> 'a option" where
  "star p k s = backtrack k s (length (takeWhile p s))"

text \<open>\<^verbatim>\<open>.\<close> without \<^verbatim>\<open>re.DOTALL\<close> is every character but the newline.\<close>

definition dot :: "char \<Rightarrow> bool" where
  "dot c = (c \<noteq> CHR 0x0A)"

definition ep_char :: "char \<Rightarrow> bool" where
  "ep_char c = (c = CHR ''.'' \<or> is_digit c \<or> is_alpha c)"

text \<open>\<^verbatim>\<open>r".* - ([.\da-zA-Z]*) \[(\d*p)\]"\<close>: group 1 the episode number, group 2 the resolution.\<close>

definition episode_data_regex :: "string \<Rightarrow> (string \<times> string) option" where
  "episode_data_regex =
     star dot (\<lambda>_. lit '' - ''
       (star ep_char (\<lambda>g1. lit '' [''
         (star is_digit (\<lambda>d. lit ''p''
           (lit '']'' (\<lambda>_. Some (g1, d @ ''p''))))))))"

text \<open>\<^verbatim>\<open>r".* \((\d*)-(\d*)\) \[(\d*p)\]"\<close>: first and last episode of the batch, resolution.\<close>

definition batch_episodes_data_regex :: "string \<Rightarrow> (string \<times> string \<times> string) option" where
  "batch_episodes_data_regex =
     star dot (\<lambda>_. lit '' (''
       (star is_digit (\<lambda>g1. lit ''-''
         (star is_digit (\<lambda>g2. lit '') [''
           (star is_digit (\<lambda>d. lit ''p''
             (lit '']'' (\<lambda>_. Some (g1, g2, d @ ''p''))))))))))"

text \<open>\<^verbatim>\<open>r".*var hs_showid = (\d*)"\<close> with \<^verbatim>\<open>flags=re.DOTALL\<close>: the dot matches every character.\<close>

definition show_id_regex :: "string \<Rightarrow> string option" where
  "show_id_regex =
     star (\<lambda>_. True) (\<lambda>_. lit ''var hs_showid = ''
       (star is_digit (\<lambda>g1 _. Some g1)))"

section \<open>The scraper object\<close>

text \<open>
  An entry of \<^verbatim>\<open>self.episodes\<close> (a dict with three keys), a thread handle of
  \<^verbatim>\<open>self.threads\<close> (its name, the page body it was given and, once its
  \<^verbatim>\<open>parse_episodes\<close> call has ended, how it ended), and the attributes of
  \<^verbatim>\<open>self\<close>. Printing (\<^verbatim>\<open>verbose\<close>, \<^verbatim>\<open>debug\<close>) is not modelled: \<^verbatim>\<open>debug\<close> is
  taken at its default \<^verbatim>\<open>False\<close>.
\<close>

datatype outcome = Ok | Raise error

record entry =
  episode_number :: py_value
  video_resolution :: string
  magnet_url :: string

record thread =
  thread_name :: string
  thread_args :: string
  thread_outcome :: "outcome option"

record scraper =
  show_id :: py_value
  episodes_available :: "py_value set option"
  all_episodes_acquired :: bool
  threads :: "thread list"
  episodes :: "entry list"
  episode_numbers_collected :: "py_value set"
  episodes_page_number :: nat

text \<open>The two URL templates, filled in by \<^verbatim>\<open>str.format\<close>.\<close>

definition episodes_url :: "string \<Rightarrow> py_value \<Rightarrow> string" where
  "episodes_url show_type sid =
     ''https://horriblesubs.info/api.php?method=getshows&type='' @ show_type
       @ ''&showid='' @ py_str sid"

definition episodes_page_url :: "string \<Rightarrow> py_value \<Rightarrow> nat \<Rightarrow> string" where
  "episodes_page_url show_type sid page_number =
     episodes_url show_type sid @ ''&nextid='' @ str_nat page_number @ ''&_''"

subsection \<open>\<^verbatim>\<open>_add_episode\<close>\<close>

text \<open>
  \<^verbatim>\<open>episode_range\<close> is tested for truthiness twice: \<^verbatim>\<open>None\<close> (the default) and the
  empty list both take the \<^verbatim>\<open>episode_number\<close> branch.
\<close>

definition add_episode ::
  "py_value \<Rightarrow> int list option \<Rightarrow> string \<Rightarrow> string \<Rightarrow> scraper \<Rightarrow> scraper" where
  "add_episode ep_number episode_range vid_res magnet s =
     (let r = (case episode_range of None \<Rightarrow> [] | Some r \<Rightarrow> r) in
      if r \<noteq> [] then
        s\<lparr>episodes := episodes s @
             [\<lparr>episode_number = PList r, video_resolution = vid_res, magnet_url = magnet\<rparr>],
          episode_numbers_collected := episode_numbers_collected s \<union> PInt ` set r\<rparr>
      else
        s\<lparr>episodes := episodes s @
             [\<lparr>episode_number = ep_number, video_resolution = vid_res, magnet_url = magnet\<rparr>],
          episode_numbers_collected := insert ep_number (episode_numbers_collected s)\<rparr>)"

text \<open>\<^verbatim>\<open>magnet_tag.a.attrs['href']\<close> after \<^verbatim>\<open>magnet_tag = episode_div.find(...)\<close>.\<close>

definition magnet_href :: "release_div \<Rightarrow> error + string" where
  "magnet_href d =
     (case magnet_tag d of
        NoMagnetTag \<Rightarrow> Inl AttributeError
      | NoAnchor \<Rightarrow> Inl AttributeError
      | NoHref \<Rightarrow> Inl KeyError
      | Href m \<Rightarrow> Inr m)"

subsection \<open>\<^verbatim>\<open>parse_episodes\<close>\<close>

text \<open>
  The \<^verbatim>\<open>for\<close> loop over the reversed blocks. It mutates \<^verbatim>\<open>self\<close> block by block, so
  the state is returned with the outcome also when the loop raises.
\<close>

fun parse_episodes_loop :: "scraper \<Rightarrow> release_div list \<Rightarrow> outcome \<times> scraper" where
  "parse_episodes_loop s [] = (Ok, s)"
| "parse_episodes_loop s (episode_div # divs) =
     (case i_tag episode_div of
        NoITag \<Rightarrow> (Raise AttributeError, s)
      | NoString \<Rightarrow> (Raise TypeError, s)
      | Text t \<Rightarrow>
         (case episode_data_regex t of
            None \<Rightarrow> (Raise RegexFailedToMatch, s)
          | Some (ep_number, vid_res) \<Rightarrow>
             if PStr ep_number \<in> episode_numbers_collected s
             then parse_episodes_loop s divs
             else (case magnet_href episode_div of
                     Inl e \<Rightarrow> (Raise e, s)
                   | Inr magnet \<Rightarrow>
                       parse_episodes_loop
                         (add_episode (PStr ep_number) None vid_res magnet s) divs)))"

definition parse_episodes :: "collaborators \<Rightarrow> scraper \<Rightarrow> string \<Rightarrow> outcome \<times> scraper" where
  "parse_episodes w s html =
     (case parse_episodes_loop s (rev (release_links w html)) of
        (Raise e, s') \<Rightarrow> (Raise e, s')
      | (Ok, s') \<Rightarrow>
          (Ok, if Some (episode_numbers_collected s') = episodes_available s'
               then s'\<lparr>all_episodes_acquired := True\<rparr> else s'))"

subsection \<open>\<^verbatim>\<open>parse_batch_episodes\<close>\<close>

fun parse_batch_episodes_loop :: "scraper \<Rightarrow> release_div list \<Rightarrow> outcome \<times> scraper" where
  "parse_batch_episodes_loop s [] = (Ok, s)"
| "parse_batch_episodes_loop s (episode_div # divs) =
     (case i_tag episode_div of
        NoITag \<Rightarrow> (Raise AttributeError, s)
      | NoString \<Rightarrow> (Raise TypeError, s)
      | Text t \<Rightarrow>
         (case batch_episodes_data_regex t of
            None \<Rightarrow> (Raise RegexFailedToMatch, s)
          | Some (first_ep_number, last_ep_numb, vid_res) \<Rightarrow>
             (case py_int first_ep_number of
                Inl e \<Rightarrow> (Raise e, s)
              | Inr a \<Rightarrow>
                 (case py_int last_ep_numb of
                    Inl e \<Rightarrow> (Raise e, s)
                  | Inr b \<Rightarrow>
                     let episode_range = py_range a (b + 1) in
                     if True \<in> set (map (\<lambda>d. episode_number d = PList episode_range)
                                     (episodes s))
                     then parse_batch_episodes_loop s divs
                     else (case magnet_href episode_div of
                             Inl e \<Rightarrow> (Raise e, s)
                           | Inr magnet \<Rightarrow>
                               parse_batch_episodes_loop
                                 (add_episode PNone (Some episode_range) vid_res magnet s)
                                 divs)))))"

definition parse_batch_episodes ::
  "collaborators \<Rightarrow> scraper \<Rightarrow> string \<Rightarrow> outcome \<times> scraper" where
  "parse_batch_episodes w s html = parse_batch_episodes_loop s (rev (release_links w html))"

subsection \<open>Show id and most recent episode\<close>

definition get_show_id_from_url :: "collaborators \<Rightarrow> string \<Rightarrow> error + string" where
  "get_show_id_from_url w show_url =
     (case show_id_regex (get_html w show_url) of
        None \<Rightarrow> Inl RegexFailedToMatch
      | Some g1 \<Rightarrow> Inr g1)"

definition get_most_recent_episode_number :: "collaborators \<Rightarrow> string \<Rightarrow> error + string" where
  "get_most_recent_episode_number w url =
     (case release_links w (get_html w url) of
        [] \<Rightarrow> Inl HorribleSubsException
      | episode_div_tag # _ \<Rightarrow>
         (case i_tag episode_div_tag of
            NoITag \<Rightarrow> Inl AttributeError
          | NoString \<Rightarrow> Inl TypeError
          | Text t \<Rightarrow>
             (case episode_data_regex t of
                None \<Rightarrow> Inl RegexFailedToMatch
              | Some (g1, g2) \<Rightarrow> Inr g1)))"

subsection \<open>The pagination loop and its threads\<close>

definition get_next_page_html :: "collaborators \<Rightarrow> bool \<Rightarrow> scraper \<Rightarrow> string \<times> scraper" where
  "get_next_page_html w increment_page_number s =
     (let s' = (if increment_page_number
                then s\<lparr>episodes_page_number := episodes_page_number s + 1\<rparr> else s)
      in (get_html w (episodes_page_url ''show'' (show_id s') (episodes_page_number s')), s'))"

text \<open>
  \<^verbatim>\<open>parse_all_in_parallel\<close> runs on the constructor's thread; every page it dispatches is
  parsed by a thread of its own. A configuration is \<^verbatim>\<open>self\<close> with the place the
  constructor's thread has reached: at the test of the \<^verbatim>\<open>while\<close> loop holding
  \<^verbatim>\<open>next_page_html\<close>, or returned from the constructor. A run is a schedule, a list of
  actions: \<open>Coordinator\<close> makes the constructor's thread test the loop condition and, when
  it holds, start the thread, append it to \<^verbatim>\<open>self.threads\<close> and fetch the next page;
  \<open>Worker i\<close> makes the \<open>i\<close>-th started thread execute its call of
  \<^verbatim>\<open>parse_episodes\<close> from its first statement to its last. The source never calls
  \<^verbatim>\<open>join\<close>. An exception in a worker ends that thread only. Every schedule of this
  kind is a run of the program, namely one in which page parses execute one at a time. The
  source takes no lock, so the program has more runs than these: the steps of two page
  parses may alternate. Those runs are the schedules of \<open>fine_exec\<close> below.
\<close>

datatype control = Loop string | Returned

datatype action = Coordinator | Worker nat

definition parse_all_in_parallel_enter :: "collaborators \<Rightarrow> scraper \<Rightarrow> scraper \<times> control" where
  "parse_all_in_parallel_enter w s =
     (case get_next_page_html w False s of (next_page_html, s') \<Rightarrow> (s', Loop next_page_html))"

fun exec :: "collaborators \<Rightarrow> action \<Rightarrow> scraper \<times> control \<Rightarrow> scraper \<times> control" where
  "exec w Coordinator (s, Returned) = (s, Returned)"
| "exec w Coordinator (s, Loop next_page_html) =
     (if next_page_html \<noteq> ''DONE'' \<and> \<not> all_episodes_acquired s then
        (let thread = \<lparr>thread_name = ''ep_parse_'' @ str_nat (episodes_page_number s),
                        thread_args = next_page_html, thread_outcome = None\<rparr>;
             s1 = s\<lparr>threads := threads s @ [thread]\<rparr>
         in case get_next_page_html w True s1 of (html, s2) \<Rightarrow> (s2, Loop html))
      else (s, Returned))"
| "exec w (Worker i) (s, pc) =
     (if i < length (threads s) \<and> thread_outcome (threads s ! i) = None then
        (case parse_episodes w s (thread_args (threads s ! i)) of
           (out, s') \<Rightarrow>
             (s'\<lparr>threads := (threads s')[i := (threads s' ! i)\<lparr>thread_outcome := Some out\<rparr>]\<rparr>,
              pc))
      else (s, pc))"

fun run :: "collaborators \<Rightarrow> action list \<Rightarrow> scraper \<times> control \<Rightarrow> scraper \<times> control" where
  "run w [] c = c"
| "run w (a # sched) c = run w sched (exec w a c)"

subsection \<open>Page parses that interleave\<close>

text \<open>
  A thread executing \<^verbatim>\<open>parse_episodes\<close> reads or writes the shared attributes at four
  places: the membership test of line 168, the \<^verbatim>\<open>append\<close> of line 234, the
  \<^verbatim>\<open>add\<close> of line 244 and the comparison of line 180 with the assignment that follows
  it. Between two of them the thread works on its own data only (the regular expression, the
  lookup of the magnet link), so a thread is at one of these places, with the blocks it
  still has to process, or it has ended. \<open>worker_step\<close> executes the thread up to its
  next place.
\<close>

datatype worker =
  AtTest "release_div list"
  | AtAppend release_div string string "release_div list"
  | AtCollect string "release_div list"
  | Finished outcome

fun worker_step :: "scraper \<Rightarrow> worker \<Rightarrow> scraper \<times> worker" where
  "worker_step s (AtTest []) =
     (if Some (episode_numbers_collected s) = episodes_available s
      then s\<lparr>all_episodes_acquired := True\<rparr> else s,
      Finished Ok)"
| "worker_step s (AtTest (episode_div # divs)) =
     (case i_tag episode_div of
        NoITag \<Rightarrow> (s, Finished (Raise AttributeError))
      | NoString \<Rightarrow> (s, Finished (Raise TypeError))
      | Text t \<Rightarrow>
         (case episode_data_regex t of
            None \<Rightarrow> (s, Finished (Raise RegexFailedToMatch))
          | Some (ep_number, vid_res) \<Rightarrow>
             if PStr ep_number \<in> episode_numbers_collected s
             then (s, AtTest divs)
             else (s, AtAppend episode_div ep_number vid_res divs)))"
| "worker_step s (AtAppend episode_div ep_number vid_res divs) =
     (case magnet_href episode_div of
        Inl e \<Rightarrow> (s, Finished (Raise e))
      | Inr magnet \<Rightarrow>
          (s\<lparr>episodes := episodes s @
               [\<lparr>episode_number = PStr ep_number, video_resolution = vid_res,
                 magnet_url = magnet\<rparr>]\<rparr>,
           AtCollect ep_number divs))"
| "worker_step s (AtCollect ep_number divs) =
     (s\<lparr>episode_numbers_collected := insert (PStr ep_number) (episode_numbers_collected s)\<rparr>,
      AtTest divs)"
| "worker_step s (Finished out) = (s, Finished out)"

text \<open>
  A configuration now carries the place of every started thread, in the order of
  \<^verbatim>\<open>self.threads\<close>. The constructor's thread acts as before; \<open>Worker i\<close> makes the
  \<open>i\<close>-th thread take one step. Whether a thread has ended is read from its place; the
  field \<open>thread_outcome\<close> is not used in these configurations.
\<close>

fun fine_exec ::
  "collaborators \<Rightarrow> action \<Rightarrow> scraper \<times> control \<times> worker list
     \<Rightarrow> scraper \<times> control \<times> worker list" where
  "fine_exec w Coordinator (s, Returned, ws) = (s, Returned, ws)"
| "fine_exec w Coordinator (s, Loop next_page_html, ws) =
     (if next_page_html \<noteq> ''DONE'' \<and> \<not> all_episodes_acquired s then
        (case exec w Coordinator (s, Loop next_page_html) of
           (s', pc') \<Rightarrow> (s', pc', ws @ [AtTest (rev (release_links w next_page_html))]))
      else (s, Returned, ws))"
| "fine_exec w (Worker i) (s, pc, ws) =
     (if i < length ws then
        (case worker_step s (ws ! i) of (s', wk) \<Rightarrow> (s', pc, ws[i := wk]))
      else (s, pc, ws))"

fun fine_run ::
  "collaborators \<Rightarrow> action list \<Rightarrow> scraper \<times> control \<times> worker list
     \<Rightarrow> scraper \<times> control \<times> worker list" where
  "fine_run w [] c = c"
| "fine_run w (a # sched) c = fine_run w sched (fine_exec w a c)"

subsection \<open>The constructor\<close>

definition url_truthy :: "string option \<Rightarrow> bool" where
  "url_truthy show_url = (case show_url of None \<Rightarrow> False | Some u \<Rightarrow> u \<noteq> [])"

definition url_text :: "string option \<Rightarrow> string" where
  "url_text show_url = (case show_url of None \<Rightarrow> [] | Some u \<Rightarrow> u)"

definition isinstance_int :: "py_value \<Rightarrow> bool" where
  "isinstance_int v = (case v of PInt _ \<Rightarrow> True | _ \<Rightarrow> False)"

text \<open>\<^verbatim>\<open>v.isdigit()\<close>: a method of \<^verbatim>\<open>str\<close> only.\<close>

definition isdigit :: "py_value \<Rightarrow> error + bool" where
  "isdigit v =
     (case v of PStr s \<Rightarrow> Inr (s \<noteq> [] \<and> list_all is_digit s) | _ \<Rightarrow> Inl AttributeError)"

text \<open>
  Lines 36 to 46: the choice of \<^verbatim>\<open>self.show_id\<close>. The condition
  \<^verbatim>\<open>not isinstance(show_id, int) or not show_id.isdigit()\<close> evaluates its second operand
  only when the first is false.
\<close>

definition resolve_show_id :: "collaborators \<Rightarrow> py_value \<Rightarrow> string option \<Rightarrow> error + py_value" where
  "resolve_show_id w sid show_url =
     (if \<not> truthy sid \<and> \<not> url_truthy show_url then Inl ValueError
      else if url_truthy show_url \<and> \<not> truthy sid then
        (case get_show_id_from_url w (url_text show_url) of
           Inl e \<Rightarrow> Inl e
         | Inr g1 \<Rightarrow> Inr (PStr g1))
      else
        (case (if \<not> isinstance_int sid then Inr True
               else (case isdigit sid of Inl e \<Rightarrow> Inl e | Inr b \<Rightarrow> Inr (\<not> b))) of
           Inl e \<Rightarrow> Inl e
         | Inr True \<Rightarrow> Inl ValueError
         | Inr False \<Rightarrow> Inr sid))"

text \<open>
  Lines 66 to 76: the \<^verbatim>\<open>try\<close> block. \<^verbatim>\<open>except HorribleSubsException\<close> catches that class
  and its subclasses.
\<close>

definition caught :: "collaborators \<Rightarrow> error \<Rightarrow> bool" where
  "caught w e =
     (e = HorribleSubsException \<or> (e = RegexFailedToMatch \<and> regex_failed_is_hs_exception w))"

definition compute_episodes_available ::
  "collaborators \<Rightarrow> string \<Rightarrow> error + py_value set option" where
  "compute_episodes_available w url =
     (case (case get_most_recent_episode_number w url of
              Inl e \<Rightarrow> Inl e
            | Inr last_ep_number \<Rightarrow>
                (case py_int last_ep_number of
                   Inl e \<Rightarrow> Inl e
                 | Inr n \<Rightarrow> Inr (Some (PInt ` set (py_range 1 (n + 1)))))) of
        Inl e \<Rightarrow> if caught w e then Inr None else Inl e
      | Inr available \<Rightarrow> Inr available)"

definition set_truthy :: "py_value set option \<Rightarrow> bool" where
  "set_truthy a = (case a of None \<Rightarrow> False | Some S \<Rightarrow> S \<noteq> {})"

text \<open>
  The constructor up to the point where it either has returned or stands at the first test
  of the pagination loop. When it raises there is no object.
\<close>

definition init :: "collaborators \<Rightarrow> py_value \<Rightarrow> string option \<Rightarrow> error + scraper \<times> control" where
  "init w sid show_url =
     (case resolve_show_id w sid show_url of
        Inl e \<Rightarrow> Inl e
      | Inr self_show_id \<Rightarrow>
         (let url = episodes_url ''show'' self_show_id in
          case compute_episodes_available w url of
            Inl e \<Rightarrow> Inl e
          | Inr available \<Rightarrow>
             (let s = \<lparr>show_id = self_show_id, episodes_available = available,
                       all_episodes_acquired = False, threads = [], episodes = [],
                       episode_numbers_collected = {}, episodes_page_number = 0\<rparr>;
                  batch_episodes_url = episodes_url ''batch'' self_show_id
              in case parse_batch_episodes w s (get_html w batch_episodes_url) of
                   (Raise e, s') \<Rightarrow> Inl e
                 | (Ok, s') \<Rightarrow>
                     if set_truthy (episodes_available s')
                     then Inr (parse_all_in_parallel_enter w s')
                     else Inr (s', Returned))))"

section \<open>Concrete pages for the examples\<close>

text \<open>
  A well-formed release block, and collaborators given by two tables: the body served for
  a URL (the sentinel \<^verbatim>\<open>DONE\<close> for every other URL) and the release blocks found in a
  body (none in every other body).
\<close>

definition blk :: "string \<Rightarrow> string \<Rightarrow> release_div" where
  "blk t m = \<lparr>i_tag = Text t, magnet_tag = Href m\<rparr>"

definition web_of ::
  "(string \<times> string) list \<Rightarrow> (string \<times> release_div list) list \<Rightarrow> collaborators" where
  "web_of bodies blocks =
     \<lparr>get_html = (\<lambda>url. case map_of bodies url of Some b \<Rightarrow> b | None \<Rightarrow> ''DONE''),
      release_links = (\<lambda>html. case map_of blocks html of Some ds \<Rightarrow> ds | None \<Rightarrow> []),
      regex_failed_is_hs_exception = True\<rparr>"

section \<open>The show-id lookup as the specification words it\<close>

text \<open>
  The specification describes the lookup as a search for \<^verbatim>\<open>var hs_showid = (\d+)\<close>
  anywhere in the text, the first match winning. This is that search, scanning the text from
  the left; it is compared below with \<open>show_id_regex\<close>, which is what the source runs.
\<close>

fun spec_first_show_id :: "string \<Rightarrow> string option" where
  "spec_first_show_id [] = None"
| "spec_first_show_id (c # cs) =
     (if take 16 (c # cs) = ''var hs_showid = '' \<and> takeWhile is_digit (drop 16 (c # cs)) \<noteq> []
      then Some (takeWhile is_digit (drop 16 (c # cs)))
      else spec_first_show_id cs)"

section \<open>The invariant of the collection\<close>

text \<open>
  What the two dedup rules maintain: no two entries carry the same episode numeral (a
  string), no two entries carry the same range (a list), and every number of every entry
  (the entry's own number, or each integer of its range) is among the collected numbers.
\<close>

definition is_single :: "py_value \<Rightarrow> bool" where
  "is_single v = (case v of PStr _ \<Rightarrow> True | _ \<Rightarrow> False)"

definition is_range :: "py_value \<Rightarrow> bool" where
  "is_range v = (case v of PList _ \<Rightarrow> True | _ \<Rightarrow> False)"

definition numbers_of :: "py_value \<Rightarrow> py_value set" where
  "numbers_of v = (case v of PList r \<Rightarrow> PInt ` set r | _ \<Rightarrow> {v})"

definition collection_invariant :: "scraper \<Rightarrow> bool" where
  "collection_invariant s =
     (distinct (filter is_single (map episode_number (episodes s)))
      \<and> distinct (filter is_range (map episode_number (episodes s)))
      \<and> (\<forall>e\<in>set (episodes s). numbers_of (episode_number e) \<subseteq> episode_numbers_collected s))"

section \<open>An example show\<close>

text \<open>
  A show with the id 731, one episode, no batch, and one page of releases that lists the
  episode in two resolutions; the page after it is the sentinel. \<open>example_start\<close> is the
  configuration in which the constructor, called with the show URL, reaches the loop of
  \<^verbatim>\<open>parse_all_in_parallel\<close>.
\<close>

definition example_web :: collaborators where
  "example_web =
     web_of
       [(''http://horriblesubs.info/shows/x'', ''<script>var hs_showid = 731;</script>''),
        (''https://horriblesubs.info/api.php?method=getshows&type=show&showid=731'',
         ''listing''),
        (''https://horriblesubs.info/api.php?method=getshows&type=batch&showid=731'',
         ''no batches''),
        (''https://horriblesubs.info/api.php?method=getshows&type=show&showid=731&nextid=0&_'',
         ''page 0'')]
       [(''listing'', [blk ''Show - 1 [1080p]'' ''magnet:?xt=high'']),
        (''page 0'', [blk ''Show - 1 [480p]'' ''magnet:?xt=low'',
                      blk ''Show - 1 [1080p]'' ''magnet:?xt=high''])]"

definition example_start :: "scraper \<times> control" where
  "example_start =
     (\<lparr>show_id = PStr ''731'', episodes_available = Some {PInt 1},
       all_episodes_acquired = False, threads = [], episodes = [],
       episode_numbers_collected = {}, episodes_page_number = 0\<rparr>,
      Loop ''page 0'')"

text \<open>
  A show with two episodes and no batch; page 0 lists both episodes, page 1 is a page
  without release blocks, the page after it is the sentinel.
\<close>

definition two_episode_web :: collaborators where
  "two_episode_web =
     web_of
       [(''http://horriblesubs.info/shows/x'', ''<script>var hs_showid = 731;</script>''),
        (''https://horriblesubs.info/api.php?method=getshows&type=show&showid=731'',
         ''listing''),
        (''https://horriblesubs.info/api.php?method=getshows&type=batch&showid=731'',
         ''no batches''),
        (''https://horriblesubs.info/api.php?method=getshows&type=show&showid=731&nextid=0&_'',
         ''page 0''),
        (''https://horriblesubs.info/api.php?method=getshows&type=show&showid=731&nextid=1&_'',
         ''page 1'')]
       [(''listing'', [blk ''Show - 2 [1080p]'' ''magnet:?xt=two'']),
        (''page 0'', [blk ''Show - 2 [1080p]'' ''magnet:?xt=two'',
                      blk ''Show - 1 [1080p]'' ''magnet:?xt=one''])]"

definition two_episode_start :: "scraper \<times> control" where
  "two_episode_start =
     (\<lparr>show_id = PStr ''731'', episodes_available = Some {PInt 1, PInt 2},
       all_episodes_acquired = False, threads = [], episodes = [],
       episode_numbers_collected = {}, episodes_page_number = 0\<rparr>,
      Loop ''page 0'')"

text \<open>
  A show with four episodes, of which the first three are released as two batches with
  overlapping ranges; episode 4 is listed on page 0 and again on page 1.
\<close>

definition race_web :: collaborators where
  "race_web =
     web_of
       [(''http://horriblesubs.info/shows/x'', ''<script>var hs_showid = 731;</script>''),
        (''https://horriblesubs.info/api.php?method=getshows&type=show&showid=731'',
         ''listing''),
        (''https://horriblesubs.info/api.php?method=getshows&type=batch&showid=731'',
         ''batches''),
        (''https://horriblesubs.info/api.php?method=getshows&type=show&showid=731&nextid=0&_'',
         ''page 0''),
        (''https://horriblesubs.info/api.php?method=getshows&type=show&showid=731&nextid=1&_'',
         ''page 1'')]
       [(''listing'', [blk ''Show - 4 [1080p]'' ''magnet:?xt=four'']),
        (''batches'', [blk ''Show (1-3) [1080p]'' ''magnet:?xt=b13'',
                       blk ''Show (1-2) [1080p]'' ''magnet:?xt=b12'']),
        (''page 0'', [blk ''Show - 4 [1080p]'' ''magnet:?xt=four'']),
        (''page 1'', [blk ''Show - 4 [1080p]'' ''magnet:?xt=four''])]"

definition race_start :: "scraper \<times> control" where
  "race_start =
     (\<lparr>show_id = PStr ''731'', episodes_available = Some {PInt 1, PInt 2, PInt 3, PInt 4},
       all_episodes_acquired = False, threads = [],
       episodes = [\<lparr>episode_number = PList [1, 2], video_resolution = ''1080p'',
                    magnet_url = ''magnet:?xt=b12''\<rparr>,
                   \<lparr>episode_number = PList [1, 2, 3], video_resolution = ''1080p'',
                    magnet_url = ''magnet:?xt=b13''\<rparr>],
       episode_numbers_collected = {PInt 1, PInt 2, PInt 3}, episodes_page_number = 0\<rparr>,
      Loop ''page 0'')"

section \<open>Evaluating the patterns\<close>

lemmas regex_eval =
  episode_data_regex_def batch_episodes_data_regex_def show_id_regex_def
  star_def lit_def dot_def ep_char_def is_digit_def is_alpha_def

lemma py_int_ValueError:
  "\<not> (num \<noteq> [] \<and> list_all is_digit num) \<Longrightarrow> py_int num = Inl ValueError"
  by (simp add: py_int_def)

section \<open>The constructor's validation of the show id\<close>

text \<open>
  Claim C3. The constructor is documented to take the integer show id (the docstring's
  example and the module's own call pass \<^verbatim>\<open>731\<close>). On an integer the test
  \<^verbatim>\<open>not isinstance(show_id, int) or not show_id.isdigit()\<close> goes on to call
  \<^verbatim>\<open>isdigit\<close> on the integer, which has no such method: the constructor raises
  \<^verbatim>\<open>AttributeError\<close> for the show id \<^verbatim>\<open>731\<close>, whatever the URL argument and the
  collaborators are, and so before any page is fetched.
\<close>

theorem init_integer_show_id_raises:
  "init w (PInt 731) show_url = Inl AttributeError"
  by (simp add: init_def resolve_show_id_def isinstance_int_def isdigit_def)

text \<open>
  More generally no show id that is given is accepted: an integer raises
  \<^verbatim>\<open>AttributeError\<close>, every other truthy value (a string of digits too) raises
  \<^verbatim>\<open>ValueError\<close>.
\<close>

lemma resolve_show_id_given:
  "truthy sid \<Longrightarrow>
   resolve_show_id w sid show_url =
     (if isinstance_int sid then Inl AttributeError else Inl ValueError)"
  by (cases sid) (simp_all add: resolve_show_id_def isinstance_int_def isdigit_def)

section \<open>The most recent episode number\<close>

text \<open>
  Claim C10. When the constructor is given a show URL only, the show id is found on the show
  page, and the label of the first release block of the single-episode listing matches the
  single-episode pattern with an episode numeral that is not a non-empty string of decimal
  digits, then \<^verbatim>\<open>int(last_ep_number)\<close> raises \<^verbatim>\<open>ValueError\<close>, which the
  \<^verbatim>\<open>except HorribleSubsException\<close> clause does not catch: the constructor raises
  \<^verbatim>\<open>ValueError\<close>; it neither succeeds nor continues with the episode count unknown.
\<close>

theorem most_recent_numeral_not_decimal_raises:
  assumes "\<not> truthy sid" and "show_url = Some u" and "u \<noteq> []"
    and "show_id_regex (get_html w u) = Some g"
    and "release_links w (get_html w (episodes_url ''show'' (PStr g))) = d # ds"
    and "i_tag d = Text t"
    and "episode_data_regex t = Some (num, res)"
    and "\<not> (num \<noteq> [] \<and> list_all is_digit num)"
  shows "init w sid show_url = Inl ValueError"
proof -
  have r: "resolve_show_id w sid show_url = Inr (PStr g)"
    using assms(1-4)
    by (simp add: resolve_show_id_def url_truthy_def url_text_def get_show_id_from_url_def)
  have m: "get_most_recent_episode_number w (episodes_url ''show'' (PStr g)) = Inr num"
    using assms(5-7) by (simp add: get_most_recent_episode_number_def)
  have "py_int num = Inl ValueError"
    using assms(8) by (rule py_int_ValueError)
  with m have "compute_episodes_available w (episodes_url ''show'' (PStr g)) = Inl ValueError"
    by (simp add: compute_episodes_available_def caught_def)
  with r show ?thesis
    by (simp add: init_def)
qed

theorem most_recent_numeral_not_decimal_raises_witness:
  "episode_data_regex ''Show - 13.5 [720p]'' = Some (''13.5'', ''720p'')
   \<and> \<not> list_all is_digit ''13.5''
   \<and> init (web_of [(''http://horriblesubs.info/shows/x'', ''var hs_showid = 731;''),
         (''https://horriblesubs.info/api.php?method=getshows&type=show&showid=731'', ''listing'')]
        [(''listing'', [blk ''Show - 13.5 [720p]'' ''magnet:?xt=a''])])
      PNone (Some ''http://horriblesubs.info/shows/x'') = Inl ValueError"
proof -
  let ?w = "web_of [(''http://horriblesubs.info/shows/x'', ''var hs_showid = 731;''),
         (''https://horriblesubs.info/api.php?method=getshows&type=show&showid=731'', ''listing'')]
        [(''listing'', [blk ''Show - 13.5 [720p]'' ''magnet:?xt=a''])]"
  have a: "episode_data_regex ''Show - 13.5 [720p]'' = Some (''13.5'', ''720p'')"
    by (simp add: regex_eval)
  have b: "\<not> list_all is_digit ''13.5''" by (simp add: is_digit_def)
  have c: "show_id_regex (get_html ?w ''http://horriblesubs.info/shows/x'') = Some ''731''"
    by (simp add: web_of_def regex_eval)
  have d: "release_links ?w (get_html ?w (episodes_url ''show'' (PStr ''731'')))
     = blk ''Show - 13.5 [720p]'' ''magnet:?xt=a'' # []"
    by (simp add: web_of_def episodes_url_def)
  have e: "i_tag (blk ''Show - 13.5 [720p]'' ''magnet:?xt=a'') = Text ''Show - 13.5 [720p]''"
    by (simp add: blk_def)
  show ?thesis
    using a b most_recent_numeral_not_decimal_raises [of PNone _ _ ?w, OF _ refl _ c d e a]
    by simp
qed

section \<open>Expansion of a batch label\<close>

lemma py_range_upto: "py_range a (b + 1) = [a..b]"
  by (simp add: py_range_def)

lemma upto_as_map: "[a..b] = map (\<lambda>k. a + int k) [0..<nat (b - a + 1)]"
proof (rule nth_equalityI)
  show "length [a..b] = length (map (\<lambda>k. a + int k) [0..<nat (b - a + 1)])"
    by simp
next
  fix i assume "i < length [a..b]"
  then show "[a..b] ! i = map (\<lambda>k. a + int k) [0..<nat (b - a + 1)] ! i"
    by simp
qed

text \<open>
  Claim C6, as the code has it. When the label of a release block matches the batch pattern,
  both digit groups convert to integers \<open>a\<close> and \<open>b\<close> with \<open>a \<le> b\<close>, the block has a
  magnet link and no entry with the same range exists yet, one iteration of the batch loop
  appends one entry whose episode number is the list \<open>a, a + 1, ..., b\<close> and adds these
  integers to the collected numbers; the list has \<open>b - a + 1\<close> elements. That the first
  number is not above the last is a hypothesis here: the pattern does not enforce it.
\<close>

theorem batch_label_expands_to_inclusive_range:
  assumes "i_tag d = Text t"
    and "batch_episodes_data_regex t = Some (f, l, res)"
    and "py_int f = Inr a" and "py_int l = Inr b"
    and "a \<le> b"
    and "magnet_href d = Inr m"
    and "True \<notin> set (map (\<lambda>e. episode_number e = PList [a..b]) (episodes s))"
  shows "parse_batch_episodes_loop s [d] =
           (Ok, s\<lparr>episodes := episodes s @
                    [\<lparr>episode_number = PList [a..b], video_resolution = res, magnet_url = m\<rparr>],
                  episode_numbers_collected := episode_numbers_collected s \<union> PInt ` set [a..b]\<rparr>)
         \<and> [a..b] = map (\<lambda>k. a + int k) [0..<nat (b - a + 1)]
         \<and> int (length [a..b]) = b - a + 1"
proof -
  from \<open>a \<le> b\<close> have ne: "[a..b] \<noteq> []" by (simp add: upto.simps)
  have "parse_batch_episodes_loop s [d] =
           (Ok, s\<lparr>episodes := episodes s @
                    [\<lparr>episode_number = PList [a..b], video_resolution = res, magnet_url = m\<rparr>],
                  episode_numbers_collected := episode_numbers_collected s \<union> PInt ` set [a..b]\<rparr>)"
    using assms(1-4,6,7) ne
    by (simp add: py_range_upto add_episode_def Let_def del: set_upto)
  moreover have "[a..b] = map (\<lambda>k. a + int k) [0..<nat (b - a + 1)]"
    by (rule upto_as_map)
  moreover have "int (length [a..b]) = b - a + 1"
    using \<open>a \<le> b\<close> by simp
  ultimately show ?thesis by blast
qed

theorem batch_label_expands_to_inclusive_range_witness:
  "parse_batch_episodes_loop
     \<lparr>show_id = PStr ''731'', episodes_available = None, all_episodes_acquired = False,
      threads = [], episodes = [], episode_numbers_collected = {}, episodes_page_number = 0\<rparr>
     [blk ''Naruto Shippuuden (80-83) [1080p]'' ''magnet:?xt=b'']
   = (Ok, \<lparr>show_id = PStr ''731'', episodes_available = None, all_episodes_acquired = False,
      threads = [],
      episodes = [\<lparr>episode_number = PList [80, 81, 82, 83], video_resolution = ''1080p'',
                   magnet_url = ''magnet:?xt=b''\<rparr>],
      episode_numbers_collected = {PInt 80, PInt 81, PInt 82, PInt 83},
      episodes_page_number = 0\<rparr>)
   \<and> int (length [80..83::int]) = 83 - 80 + 1"
proof -
  have r: "batch_episodes_data_regex ''Naruto Shippuuden (80-83) [1080p]'' = Some (''80'', ''83'', ''1080p'')"
    by (simp add: regex_eval)
  have a: "py_int ''80'' = Inr 80" and b: "py_int ''83'' = Inr 83"
    by (simp_all add: py_int_def is_digit_def digit_val_def)
  have u: "[80..83::int] = [80, 81, 82, 83]"
    by (simp add: upto.simps)
  show ?thesis
    using batch_label_expands_to_inclusive_range
      [of "blk ''Naruto Shippuuden (80-83) [1080p]'' ''magnet:?xt=b''" _ "''80''" "''83''" "''1080p''" 80 83
          "''magnet:?xt=b''"
          "\<lparr>show_id = PStr ''731'', episodes_available = None, all_episodes_acquired = False,
      threads = [], episodes = [], episode_numbers_collected = {}, episodes_page_number = 0\<rparr>",
       OF _ r a b]
    by (simp add: blk_def magnet_href_def u del: parse_batch_episodes_loop.simps)
qed

text \<open>
  The claim as worded fails: the label \<^verbatim>\<open>Show (5-3) [720p]\<close> matches the batch pattern,
  its pair is \<open>(5, 3)\<close>, and the expansion \<^verbatim>\<open>list(range(5, 4))\<close> is empty, so its
  length is not \<open>3 - 5 + 1\<close>.
\<close>

theorem batch_label_first_after_last_counterexample:
  "batch_episodes_data_regex ''Show (5-3) [720p]'' = Some (''5'', ''3'', ''720p'')
   \<and> py_int ''5'' = Inr 5 \<and> py_int ''3'' = Inr 3
   \<and> \<not> (5::int) \<le> 3
   \<and> py_range 5 (3 + 1) = []
   \<and> int (length (py_range 5 (3 + 1))) \<noteq> 3 - 5 + 1"
  by (simp add: regex_eval py_int_def py_range_def digit_val_def)

section \<open>Two blocks of one episode on a page\<close>

text \<open>
  Claim C5, as the code has it. On a page of two release blocks whose labels carry the same
  episode numeral, not collected before, \<^verbatim>\<open>parse_episodes\<close> ends normally and appends
  exactly one entry: the one of the block that is last in document order (the first of the
  reversed traversal), with that block's resolution and magnet link, whatever the two
  resolutions are.
\<close>

theorem last_block_in_document_order_is_retained:
  assumes "release_links w html = [b1, b2]"
    and "i_tag b1 = Text t1" and "i_tag b2 = Text t2"
    and "episode_data_regex t1 = Some (n, r1)"
    and "episode_data_regex t2 = Some (n, r2)"
    and "magnet_href b2 = Inr m2"
    and "PStr n \<notin> episode_numbers_collected s"
  shows "fst (parse_episodes w s html) = Ok
         \<and> episodes (snd (parse_episodes w s html)) =
             episodes s @ [\<lparr>episode_number = PStr n, video_resolution = r2, magnet_url = m2\<rparr>]"
  using assms
  by (simp add: parse_episodes_def add_episode_def)

theorem last_block_in_document_order_is_retained_witness:
  "episodes (snd (parse_episodes
      (web_of [] [(''page'', [blk ''Show - 05 [480p]'' ''magnet:?xt=low'',
                              blk ''Show - 05 [1080p]'' ''magnet:?xt=high''])])
      \<lparr>show_id = PStr ''731'', episodes_available = Some {PInt 1, PInt 2, PInt 3, PInt 4, PInt 5},
       all_episodes_acquired = False, threads = [], episodes = [],
       episode_numbers_collected = {}, episodes_page_number = 0\<rparr>
      ''page'')) =
    [\<lparr>episode_number = PStr ''05'', video_resolution = ''1080p'', magnet_url = ''magnet:?xt=high''\<rparr>]"
proof -
  have a: "episode_data_regex ''Show - 05 [480p]'' = Some (''05'', ''480p'')"
    by (simp add: regex_eval)
  have b: "episode_data_regex ''Show - 05 [1080p]'' = Some (''05'', ''1080p'')"
    by (simp add: regex_eval)
  have c: "release_links (web_of [] [(''page'', [blk ''Show - 05 [480p]'' ''magnet:?xt=low'',
                              blk ''Show - 05 [1080p]'' ''magnet:?xt=high''])]) ''page''
     = [blk ''Show - 05 [480p]'' ''magnet:?xt=low'', blk ''Show - 05 [1080p]'' ''magnet:?xt=high'']"
    by (simp add: web_of_def)
  show ?thesis
    using last_block_in_document_order_is_retained [OF c _ _ a b, of "''magnet:?xt=high''"
       "\<lparr>show_id = PStr ''731'', episodes_available = Some {PInt 1, PInt 2, PInt 3, PInt 4, PInt 5},
       all_episodes_acquired = False, threads = [], episodes = [],
       episode_numbers_collected = {}, episodes_page_number = 0\<rparr>"]
    by (simp add: blk_def magnet_href_def)
qed

text \<open>
  The claim as worded fails for the document order high resolution, low resolution: the
  entry kept is the \<^verbatim>\<open>480p\<close> one.
\<close>

theorem high_then_low_keeps_low_counterexample:
  "map video_resolution (episodes (snd (parse_episodes
      (web_of [] [(''page'', [blk ''Show - 05 [1080p]'' ''magnet:?xt=high'',
                              blk ''Show - 05 [480p]'' ''magnet:?xt=low''])])
      \<lparr>show_id = PStr ''731'', episodes_available = Some {PInt 1, PInt 2, PInt 3, PInt 4, PInt 5},
       all_episodes_acquired = False, threads = [], episodes = [],
       episode_numbers_collected = {}, episodes_page_number = 0\<rparr>
      ''page''))) = [''480p'']"
  by (simp add: parse_episodes_def web_of_def blk_def regex_eval magnet_href_def add_episode_def)

section \<open>Show-id discovery\<close>

lemma backtrack_always: "(\<And>g r. k g r = Some (f g)) \<Longrightarrow> backtrack k s n = Some (f (take n s))"
  by (cases n) simp_all

lemma star_digits_group: "star p (\<lambda>g1 _. Some g1) s = Some (takeWhile p s)"
  by (simp add: star_def backtrack_always [where f = "\<lambda>g. g"] takeWhile_eq_take [symmetric])

lemma backtrack_None:
  "(\<And>j. j \<le> n \<Longrightarrow> k (take j s) (drop j s) = None) \<Longrightarrow> backtrack k s n = None"
  by (induction n) simp_all

lemma backtrack_last:
  "i \<le> n \<Longrightarrow> k (take i s) (drop i s) = Some r
   \<Longrightarrow> (\<And>j. i < j \<Longrightarrow> j \<le> n \<Longrightarrow> k (take j s) (drop j s) = None)
   \<Longrightarrow> backtrack k s n = Some r"
proof (induction n)
  case 0
  then show ?case by simp
next
  case (Suc n)
  show ?case
  proof (cases "i = Suc n")
    case True
    with Suc.prems(2) show ?thesis by simp
  next
    case False
    with Suc.prems(1) have le: "i \<le> n" by simp
    have none: "k (take (Suc n) s) (drop (Suc n) s) = None"
      using Suc.prems(3) [of "Suc n"] le by simp
    have "backtrack k s n = Some r"
      using le Suc.prems(2) Suc.prems(3) by (intro Suc.IH) simp_all
    with none show ?thesis by simp
  qed
qed

lemma show_id_regex_unfold:
  "show_id_regex body =
     backtrack (\<lambda>_ rest. if take 16 rest = ''var hs_showid = ''
                          then Some (takeWhile is_digit (drop 16 rest)) else None)
       body (length body)"
proof -
  have "length (takeWhile (\<lambda>_. True) body) = length body"
    by (simp add: takeWhile_eq_all_conv [THEN iffD2])
  moreover have "(\<lambda>_::string. lit ''var hs_showid = '' (star is_digit (\<lambda>g1 _. Some g1))) =
      (\<lambda>_ rest. if take 16 rest = ''var hs_showid = ''
                          then Some (takeWhile is_digit (drop 16 rest)) else None)"
  proof -
    have len: "length ''var hs_showid = '' = 16" by simp
    show ?thesis
      unfolding fun_eq_iff lit_def len star_digits_group by simp
  qed
  ultimately show ?thesis
    by (simp add: show_id_regex_def star_def [of "\<lambda>_. True"])
qed

text \<open>
  Claim C4, as the code has it. The pattern is \<^verbatim>\<open>.*var hs_showid = (\d*)\<close> under
  \<^verbatim>\<open>re.match\<close> with \<^verbatim>\<open>re.DOTALL\<close>: when the marker text \<^verbatim>\<open>var hs_showid = \<close> (16
  characters) stands at position \<open>i\<close> of the page body and at no later position, the lookup
  returns the longest run of decimal digits that follows this last occurrence (the run may
  be empty); when the marker text stands nowhere in the body, the lookup raises
  \<^verbatim>\<open>RegexFailedToMatch\<close>.
\<close>

theorem show_id_is_read_after_last_marker:
  "(i \<le> length (get_html w url)
      \<and> take 16 (drop i (get_html w url)) = ''var hs_showid = ''
      \<and> (\<forall>j. i < j \<and> j \<le> length (get_html w url)
             \<longrightarrow> take 16 (drop j (get_html w url)) \<noteq> ''var hs_showid = '')
     \<longrightarrow> get_show_id_from_url w url =
           Inr (takeWhile is_digit (drop (i + 16) (get_html w url))))
   \<and> ((\<forall>j \<le> length (get_html w url).
          take 16 (drop j (get_html w url)) \<noteq> ''var hs_showid = '')
     \<longrightarrow> get_show_id_from_url w url = Inl RegexFailedToMatch)"
proof (intro conjI impI)
  let ?k = "\<lambda>(_::string) rest. if take 16 rest = ''var hs_showid = ''
                          then Some (takeWhile is_digit (drop 16 rest)) else None"
  let ?body = "get_html w url"
  assume h: "i \<le> length ?body \<and> take 16 (drop i ?body) = ''var hs_showid = ''
      \<and> (\<forall>j. i < j \<and> j \<le> length ?body \<longrightarrow> take 16 (drop j ?body) \<noteq> ''var hs_showid = '')"
  have "backtrack ?k ?body (length ?body) = Some (takeWhile is_digit (drop (i + 16) ?body))"
  proof (rule backtrack_last [of i])
    show "i \<le> length ?body" using h by simp
    show "?k (take i ?body) (drop i ?body) = Some (takeWhile is_digit (drop (i + 16) ?body))"
      using h by (simp add: add.commute)
    fix j assume "i < j" "j \<le> length ?body"
    then show "?k (take j ?body) (drop j ?body) = None"
      using h by simp
  qed
  then show "get_show_id_from_url w url = Inr (takeWhile is_digit (drop (i + 16) ?body))"
    by (simp add: get_show_id_from_url_def show_id_regex_unfold)
next
  let ?k = "\<lambda>(_::string) rest. if take 16 rest = ''var hs_showid = ''
                          then Some (takeWhile is_digit (drop 16 rest)) else None"
  let ?body = "get_html w url"
  assume h: "\<forall>j \<le> length ?body. take 16 (drop j ?body) \<noteq> ''var hs_showid = ''"
  have "backtrack ?k ?body (length ?body) = None"
    by (rule backtrack_None) (use h in simp)
  then show "get_show_id_from_url w url = Inl RegexFailedToMatch"
    by (simp add: get_show_id_from_url_def show_id_regex_unfold)
qed

theorem show_id_is_read_after_last_marker_witness:
  "get_show_id_from_url
      (web_of [(''http://horriblesubs.info/shows/x'',
                ''var hs_showid = 1; var hs_showid = 2;'')] [])
      ''http://horriblesubs.info/shows/x'' = Inr ''2''
   \<and> get_show_id_from_url
      (web_of [(''http://horriblesubs.info/shows/x'', ''<html></html>'')] [])
      ''http://horriblesubs.info/shows/x'' = Inl RegexFailedToMatch"
proof -
  let ?w = "web_of [(''http://horriblesubs.info/shows/x'',
                ''var hs_showid = 1; var hs_showid = 2;'')] []"
  let ?v = "web_of [(''http://horriblesubs.info/shows/x'', ''<html></html>'')] []"
  let ?u = "''http://horriblesubs.info/shows/x''"
  have body: "get_html ?w ?u = ''var hs_showid = 1; var hs_showid = 2;''"
    by (simp add: web_of_def)
  have len: "length (get_html ?w ?u) = 37"
    by (simp add: body)
  have later: "\<forall>j\<in>set [20..<38]. take 16 (drop j (get_html ?w ?u)) \<noteq> ''var hs_showid = ''"
    unfolding body by simp
  have "\<forall>j. 19 < j \<and> j \<le> length (get_html ?w ?u)
          \<longrightarrow> take 16 (drop j (get_html ?w ?u)) \<noteq> ''var hs_showid = ''"
  proof (intro allI impI)
    fix j assume "19 < j \<and> j \<le> length (get_html ?w ?u)"
    then have "20 \<le> j \<and> j < 38" unfolding len by arith
    then have "j \<in> set [20..<38]" by (simp only: set_upt atLeastLessThan_iff)
    with later show "take 16 (drop j (get_html ?w ?u)) \<noteq> ''var hs_showid = ''" by blast
  qed
  then have one: "get_show_id_from_url ?w ?u = Inr ''2''"
    using show_id_is_read_after_last_marker [of 19 ?w ?u, THEN conjunct1]
    by (simp add: body is_digit_def)
  have body2: "get_html ?v ?u = ''<html></html>''"
    by (simp add: web_of_def)
  have "\<forall>j. take 16 (drop j (get_html ?v ?u)) \<noteq> ''var hs_showid = ''"
  proof
    fix j
    have "length (take 16 (drop j (get_html ?v ?u))) < 16"
      by (simp add: body2)
    moreover have "length ''var hs_showid = '' = 16" by simp
    ultimately show "take 16 (drop j (get_html ?v ?u)) \<noteq> ''var hs_showid = ''"
      by (metis less_irrefl)
  qed
  then have "\<forall>j \<le> length (get_html ?v ?u). take 16 (drop j (get_html ?v ?u)) \<noteq> ''var hs_showid = ''"
    by blast
  then have two: "get_show_id_from_url ?v ?u = Inl RegexFailedToMatch"
    using show_id_is_read_after_last_marker [of _ ?v ?u, THEN conjunct2] by blast
  from one two show ?thesis by simp
qed

text \<open>
  The claim as worded fails on a body with two markers: the source returns the digits of the
  last one, the first-match search of the specification those of the first.
\<close>

theorem first_match_wins_counterexample:
  "get_show_id_from_url
      (web_of [(''http://horriblesubs.info/shows/x'',
                ''var hs_showid = 1; var hs_showid = 2;'')] [])
      ''http://horriblesubs.info/shows/x'' = Inr ''2''
   \<and> spec_first_show_id ''var hs_showid = 1; var hs_showid = 2;'' = Some ''1''"
  by (simp add: get_show_id_from_url_def web_of_def regex_eval)

lemma show_id_marker_without_digits:
  "show_id_regex ''var hs_showid = ;'' = Some []"
  by (simp add: regex_eval)

section \<open>The two parsing loops, block by block\<close>

lemma add_episode_single [simp]:
  "episodes (add_episode (PStr n) None r m s) =
     episodes s @ [\<lparr>episode_number = PStr n, video_resolution = r, magnet_url = m\<rparr>]"
  "episode_numbers_collected (add_episode (PStr n) None r m s) =
     insert (PStr n) (episode_numbers_collected s)"
  "show_id (add_episode (PStr n) None r m s) = show_id s"
  "episodes_available (add_episode (PStr n) None r m s) = episodes_available s"
  "all_episodes_acquired (add_episode (PStr n) None r m s) = all_episodes_acquired s"
  "threads (add_episode (PStr n) None r m s) = threads s"
  "episodes_page_number (add_episode (PStr n) None r m s) = episodes_page_number s"
  by (simp_all add: add_episode_def)

lemma add_episode_other_fields [simp]:
  "show_id (add_episode x rng r m s) = show_id s"
  "episodes_available (add_episode x rng r m s) = episodes_available s"
  "all_episodes_acquired (add_episode x rng r m s) = all_episodes_acquired s"
  "threads (add_episode x rng r m s) = threads s"
  "episodes_page_number (add_episode x rng r m s) = episodes_page_number s"
  by (simp_all add: add_episode_def Let_def)

lemma add_episode_grows:
  "\<exists>e. episodes (add_episode x rng r m s) = episodes s @ [e]"
  "episode_numbers_collected s \<subseteq> episode_numbers_collected (add_episode x rng r m s)"
  by (auto simp add: add_episode_def Let_def)

text \<open>One iteration of the loop of \<open>parse_episodes\<close>: it stops, skips the block or adds it.\<close>

lemma parse_episodes_loop_Cons_cases:
  obtains (stop) e where "\<And>ds. parse_episodes_loop s (d # ds) = (Raise e, s)"
  | (skip) t n r where "i_tag d = Text t" "episode_data_regex t = Some (n, r)"
      "PStr n \<in> episode_numbers_collected s"
      "\<And>ds. parse_episodes_loop s (d # ds) = parse_episodes_loop s ds"
  | (add) t n r m where "i_tag d = Text t" "episode_data_regex t = Some (n, r)"
      "PStr n \<notin> episode_numbers_collected s" "magnet_href d = Inr m"
      "\<And>ds. parse_episodes_loop s (d # ds) =
             parse_episodes_loop (add_episode (PStr n) None r m s) ds"
proof (cases "i_tag d")
  case NoITag
  then show ?thesis using stop by simp
next
  case NoString
  then show ?thesis using stop by simp
next
  case (Text t)
  show ?thesis
  proof (cases "episode_data_regex t")
    case None
    with Text show ?thesis using stop by simp
  next
    case (Some p)
    obtain n r where p: "p = (n, r)" by (cases p)
    show ?thesis
    proof (cases "PStr n \<in> episode_numbers_collected s")
      case True
      with Text Some p show ?thesis using skip by simp
    next
      case False
      show ?thesis
      proof (cases "magnet_href d")
        case (Inl e)
        with Text Some p False show ?thesis using stop by simp
      next
        case (Inr m)
        with Text Some p False show ?thesis using add by simp
      qed
    qed
  qed
qed

lemma parse_episodes_loop_append:
  "parse_episodes_loop s pre = (Ok, s1)
   \<Longrightarrow> parse_episodes_loop s (pre @ rest) = parse_episodes_loop s1 rest"
proof (induction pre arbitrary: s)
  case Nil
  then show ?case by simp
next
  case (Cons d ds)
  show ?case
  proof (cases rule: parse_episodes_loop_Cons_cases [of s d])
    case (stop e)
    with Cons.prems show ?thesis by simp
  next
    case (skip t n r)
    then show ?thesis using Cons by simp
  next
    case (add t n r m)
    then show ?thesis using Cons by simp
  qed
qed

lemma parse_episodes_loop_grows:
  "parse_episodes_loop s ds = (out, s1)
   \<Longrightarrow> take (length (episodes s)) (episodes s1) = episodes s
     \<and> episode_numbers_collected s \<subseteq> episode_numbers_collected s1
     \<and> all_episodes_acquired s1 = all_episodes_acquired s
     \<and> episodes_available s1 = episodes_available s
     \<and> threads s1 = threads s \<and> show_id s1 = show_id s
     \<and> episodes_page_number s1 = episodes_page_number s"
proof (induction ds arbitrary: s)
  case Nil
  then show ?case by simp
next
  case (Cons d ds)
  show ?case
  proof (cases rule: parse_episodes_loop_Cons_cases [of s d])
    case (stop e)
    with Cons.prems show ?thesis by simp
  next
    case (skip t n r)
    with Cons show ?thesis by simp
  next
    case (add t n r m)
    with Cons.prems have "parse_episodes_loop (add_episode (PStr n) None r m s) ds = (out, s1)"
      by simp
    from Cons.IH [OF this] show ?thesis
      by (auto simp: take_Suc_conv_app_nth dest: arg_cong [where f = "take (length (episodes s))"])
  qed
qed


lemma parse_episodes_loop_collects:
  "parse_episodes_loop s ds = (Ok, s1) \<Longrightarrow> d \<in> set ds \<Longrightarrow> i_tag d = Text t
   \<Longrightarrow> episode_data_regex t = Some (n, r)
   \<Longrightarrow> PStr n \<in> episode_numbers_collected s1
       \<and> (PStr n \<notin> episode_numbers_collected s
            \<longrightarrow> (\<exists>e\<in>set (episodes s1). episode_number e = PStr n))"
proof (induction ds arbitrary: s)
  case Nil
  then show ?case by simp
next
  case (Cons x xs)
  show ?case
  proof (cases rule: parse_episodes_loop_Cons_cases [of s x])
    case (stop e)
    with Cons.prems show ?thesis by simp
  next
    case (skip t' n' r')
    with Cons.prems have run: "parse_episodes_loop s xs = (Ok, s1)" by simp
    show ?thesis
    proof (cases "d = x")
      case True
      with skip Cons.prems have "PStr n \<in> episode_numbers_collected s" by simp
      with parse_episodes_loop_grows [OF run] show ?thesis by blast
    next
      case False
      with Cons.prems have "d \<in> set xs" by simp
      from Cons.IH [OF run this Cons.prems(3,4)] show ?thesis .
    qed
  next
    case (add t' n' r' m)
    let ?s = "add_episode (PStr n') None r' m s"
    from add Cons.prems have run: "parse_episodes_loop ?s xs = (Ok, s1)" by simp
    note g = parse_episodes_loop_grows [OF run]
    have kept: "set (episodes ?s) \<subseteq> set (episodes s1)"
    proof -
      from g have "take (length (episodes ?s)) (episodes s1) = episodes ?s" by blast
      then show ?thesis by (metis set_take_subset)
    qed
    have here: "PStr n' \<in> episode_numbers_collected s1
        \<and> (\<exists>e\<in>set (episodes s1). episode_number e = PStr n')"
    proof
      show "PStr n' \<in> episode_numbers_collected s1" using g by auto
      have "\<lparr>episode_number = PStr n', video_resolution = r', magnet_url = m\<rparr> \<in> set (episodes ?s)"
        by simp
      with kept show "\<exists>e\<in>set (episodes s1). episode_number e = PStr n'"
        by (metis entry.select_convs(1) subsetD)
    qed
    show ?thesis
    proof (cases "n = n'")
      case True
      with here show ?thesis by simp
    next
      case False
      with add Cons.prems have "d \<in> set xs" by auto
      from Cons.IH [OF run this Cons.prems(3,4)] False show ?thesis by simp
    qed
  qed
qed

text \<open>One iteration of the loop of \<open>parse_batch_episodes\<close>.\<close>

lemma parse_batch_episodes_loop_Cons_cases:
  obtains (stop) e where "\<And>ds. parse_batch_episodes_loop s (d # ds) = (Raise e, s)"
  | (skip) t f l r a b where "i_tag d = Text t" "batch_episodes_data_regex t = Some (f, l, r)"
      "py_int f = Inr a" "py_int l = Inr b"
      "\<exists>e\<in>set (episodes s). episode_number e = PList [a..b]"
      "\<And>ds. parse_batch_episodes_loop s (d # ds) = parse_batch_episodes_loop s ds"
  | (add) t f l r a b m where "i_tag d = Text t" "batch_episodes_data_regex t = Some (f, l, r)"
      "py_int f = Inr a" "py_int l = Inr b"
      "\<forall>e\<in>set (episodes s). episode_number e \<noteq> PList [a..b]" "magnet_href d = Inr m"
      "\<And>ds. parse_batch_episodes_loop s (d # ds) =
             parse_batch_episodes_loop (add_episode PNone (Some [a..b]) r m s) ds"
proof (cases "i_tag d")
  case NoITag
  then show ?thesis using stop by simp
next
  case NoString
  then show ?thesis using stop by simp
next
  case (Text t)
  show ?thesis
  proof (cases "batch_episodes_data_regex t")
    case None
    with Text show ?thesis using stop by simp
  next
    case (Some p)
    obtain f l r where p: "p = (f, l, r)" by (cases p)
    show ?thesis
    proof (cases "py_int f")
      case (Inl e)
      with Text Some p show ?thesis using stop by simp
    next
      case a: (Inr a)
      show ?thesis
      proof (cases "py_int l")
        case (Inl e)
        with Text Some p a show ?thesis using stop by simp
      next
        case b: (Inr b)
        show ?thesis
        proof (cases "\<exists>e\<in>set (episodes s). episode_number e = PList [a..b]")
          case True
          then have "\<And>ds. parse_batch_episodes_loop s (d # ds) = parse_batch_episodes_loop s ds"
            using Text Some p a b by (auto simp: py_range_def)
          with Text Some p a b True show ?thesis using skip by blast
        next
          case False
          show ?thesis
          proof (cases "magnet_href d")
            case (Inl e)
            with Text Some p a b False show ?thesis using stop
              by (auto simp: py_range_def)
          next
            case (Inr m)
            have "\<And>ds. parse_batch_episodes_loop s (d # ds) =
                parse_batch_episodes_loop (add_episode PNone (Some [a..b]) r m s) ds"
              using Text Some p a b False Inr by (auto simp: py_range_def)
            with Text Some p a b False Inr show ?thesis using add by blast
          qed
        qed
      qed
    qed
  qed
qed

lemma parse_batch_episodes_loop_append:
  "parse_batch_episodes_loop s pre = (Ok, s1)
   \<Longrightarrow> parse_batch_episodes_loop s (pre @ rest) = parse_batch_episodes_loop s1 rest"
proof (induction pre arbitrary: s)
  case Nil
  then show ?case by simp
next
  case (Cons d ds)
  show ?case
  proof (cases rule: parse_batch_episodes_loop_Cons_cases [of s d])
    case (stop e)
    with Cons.prems show ?thesis by simp
  next
    case (skip t f l r a b)
    then show ?thesis using Cons by simp
  next
    case (add t f l r a b m)
    then show ?thesis using Cons by simp
  qed
qed

lemma parse_batch_episodes_loop_grows:
  "parse_batch_episodes_loop s ds = (out, s1)
   \<Longrightarrow> take (length (episodes s)) (episodes s1) = episodes s
     \<and> episode_numbers_collected s \<subseteq> episode_numbers_collected s1
     \<and> all_episodes_acquired s1 = all_episodes_acquired s
     \<and> episodes_available s1 = episodes_available s
     \<and> threads s1 = threads s \<and> show_id s1 = show_id s
     \<and> episodes_page_number s1 = episodes_page_number s"
proof (induction ds arbitrary: s)
  case Nil
  then show ?case by simp
next
  case (Cons d ds)
  show ?case
  proof (cases rule: parse_batch_episodes_loop_Cons_cases [of s d])
    case (stop e)
    with Cons.prems show ?thesis by simp
  next
    case (skip t f l r a b)
    with Cons show ?thesis by simp
  next
    case (add t f l r a b m)
    let ?s = "add_episode PNone (Some [a..b]) r m s"
    from add Cons.prems have "parse_batch_episodes_loop ?s ds = (out, s1)"
      by simp
    note ih = Cons.IH [OF this]
    obtain e where e: "episodes ?s = episodes s @ [e]"
      using add_episode_grows(1) by blast
    have "take (length (episodes s)) (episodes s1) = episodes s"
    proof -
      have "take (length (episodes s)) (take (length (episodes ?s)) (episodes s1))
           = take (length (episodes s)) (episodes ?s)"
        using ih by simp
      then show ?thesis by (simp add: e min_def)
    qed
    moreover have "episode_numbers_collected s \<subseteq> episode_numbers_collected s1"
      using ih add_episode_grows(2) [of s PNone "Some [a..b]" r m] by blast
    ultimately show ?thesis using ih by simp
  qed
qed

lemma parse_batch_episodes_loop_has_entry:
  "parse_batch_episodes_loop s ds = (Ok, s1) \<Longrightarrow> d \<in> set ds \<Longrightarrow> i_tag d = Text t
   \<Longrightarrow> batch_episodes_data_regex t = Some (f, l, r)
   \<Longrightarrow> py_int f = Inr a \<Longrightarrow> py_int l = Inr b \<Longrightarrow> a \<le> b
   \<Longrightarrow> \<exists>e\<in>set (episodes s1). episode_number e = PList [a..b]"
proof (induction ds arbitrary: s)
  case Nil
  then show ?case by simp
next
  case (Cons x xs)
  from \<open>a \<le> b\<close> have ne: "[a..b] \<noteq> []" by (simp add: upto.simps)
  show ?case
  proof (cases rule: parse_batch_episodes_loop_Cons_cases [of s x])
    case (stop e)
    with Cons.prems show ?thesis by simp
  next
    case (skip t' f' l' r' a' b')
    with Cons.prems have run: "parse_batch_episodes_loop s xs = (Ok, s1)" by simp
    show ?thesis
    proof (cases "d = x")
      case True
      with skip Cons.prems have "\<exists>e\<in>set (episodes s). episode_number e = PList [a..b]"
        by simp
      moreover have "set (episodes s) \<subseteq> set (episodes s1)"
        using parse_batch_episodes_loop_grows [OF run] by (metis set_take_subset)
      ultimately show ?thesis by blast
    next
      case False
      with Cons.prems have "d \<in> set xs" by simp
      from Cons.IH [OF run this Cons.prems(3-7)] show ?thesis .
    qed
  next
    case (add t' f' l' r' a' b' m)
    let ?s = "add_episode PNone (Some [a'..b']) r' m s"
    from add Cons.prems have run: "parse_batch_episodes_loop ?s xs = (Ok, s1)" by simp
    show ?thesis
    proof (cases "d = x")
      case True
      with add Cons.prems have "a' = a" "b' = b" by simp_all
      then have "\<exists>e\<in>set (episodes ?s). episode_number e = PList [a..b]"
        using ne by (simp add: add_episode_def)
      moreover have "set (episodes ?s) \<subseteq> set (episodes s1)"
        using parse_batch_episodes_loop_grows [OF run] by (metis set_take_subset)
      ultimately show ?thesis by blast
    next
      case False
      with Cons.prems have "d \<in> set xs" by simp
      from Cons.IH [OF run this Cons.prems(3-7)] show ?thesis .
    qed
  qed
qed

section \<open>A page that stops matching half way\<close>

text \<open>
  Claim C9. Let the blocks of a page, in the reversed order in which they are traversed, be
  an initial part \<open>pre\<close> that the loop gets through without an exception, then a block
  \<open>bad\<close> whose label does not match the pattern. Then \<^verbatim>\<open>parse_episodes\<close> raises
  \<^verbatim>\<open>RegexFailedToMatch\<close> and leaves \<^verbatim>\<open>self\<close> in the state reached after \<open>pre\<close>:
  the entries present before are still there, in the same places, nothing has left the
  collected numbers, every numeral of \<open>pre\<close> is in the collected numbers, and every numeral
  of \<open>pre\<close> that was not collected before has its entry. The same holds for
  \<^verbatim>\<open>parse_batch_episodes\<close> with the batch pattern; there every block of \<open>pre\<close> whose
  range is not empty has an entry with that range.
\<close>

theorem parse_error_keeps_earlier_additions:
  "(rev (release_links w html) = pre @ bad # rest
      \<and> parse_episodes_loop s pre = (Ok, s1)
      \<and> i_tag bad = Text t \<and> episode_data_regex t = None
    \<longrightarrow> parse_episodes w s html = (Raise RegexFailedToMatch, s1)
        \<and> take (length (episodes s)) (episodes s1) = episodes s
        \<and> episode_numbers_collected s \<subseteq> episode_numbers_collected s1
        \<and> (\<forall>d\<in>set pre. \<forall>t' n r. i_tag d = Text t' \<and> episode_data_regex t' = Some (n, r)
              \<longrightarrow> PStr n \<in> episode_numbers_collected s1
                  \<and> (PStr n \<notin> episode_numbers_collected s
                       \<longrightarrow> (\<exists>e\<in>set (episodes s1). episode_number e = PStr n))))
   \<and> (rev (release_links w html) = pre @ bad # rest
      \<and> parse_batch_episodes_loop s pre = (Ok, s2)
      \<and> i_tag bad = Text t \<and> batch_episodes_data_regex t = None
    \<longrightarrow> parse_batch_episodes w s html = (Raise RegexFailedToMatch, s2)
        \<and> take (length (episodes s)) (episodes s2) = episodes s
        \<and> episode_numbers_collected s \<subseteq> episode_numbers_collected s2
        \<and> (\<forall>d\<in>set pre. \<forall>t' f l r a b. i_tag d = Text t'
                \<and> batch_episodes_data_regex t' = Some (f, l, r)
                \<and> py_int f = Inr a \<and> py_int l = Inr b \<and> a \<le> b
              \<longrightarrow> (\<exists>e\<in>set (episodes s2). episode_number e = PList [a..b])))"
proof (intro conjI impI)
  assume h: "rev (release_links w html) = pre @ bad # rest
      \<and> parse_episodes_loop s pre = (Ok, s1)
      \<and> i_tag bad = Text t \<and> episode_data_regex t = None"
  then have run: "parse_episodes_loop s pre = (Ok, s1)" by simp
  have "parse_episodes_loop s (pre @ bad # rest) = parse_episodes_loop s1 (bad # rest)"
    using run by (rule parse_episodes_loop_append)
  also have "\<dots> = (Raise RegexFailedToMatch, s1)"
    using h by simp
  finally show "parse_episodes w s html = (Raise RegexFailedToMatch, s1)"
    using h by (simp add: parse_episodes_def)
  show "take (length (episodes s)) (episodes s1) = episodes s"
    using parse_episodes_loop_grows [OF run] by simp
  show "episode_numbers_collected s \<subseteq> episode_numbers_collected s1"
    using parse_episodes_loop_grows [OF run] by simp
  show "\<forall>d\<in>set pre. \<forall>t' n r. i_tag d = Text t' \<and> episode_data_regex t' = Some (n, r)
              \<longrightarrow> PStr n \<in> episode_numbers_collected s1
                  \<and> (PStr n \<notin> episode_numbers_collected s
                       \<longrightarrow> (\<exists>e\<in>set (episodes s1). episode_number e = PStr n))"
    using parse_episodes_loop_collects [OF run] by blast
next
  assume h: "rev (release_links w html) = pre @ bad # rest
      \<and> parse_batch_episodes_loop s pre = (Ok, s2)
      \<and> i_tag bad = Text t \<and> batch_episodes_data_regex t = None"
  then have run: "parse_batch_episodes_loop s pre = (Ok, s2)" by simp
  have "parse_batch_episodes_loop s (pre @ bad # rest) = parse_batch_episodes_loop s2 (bad # rest)"
    using run by (rule parse_batch_episodes_loop_append)
  also have "\<dots> = (Raise RegexFailedToMatch, s2)"
    using h by simp
  finally show "parse_batch_episodes w s html = (Raise RegexFailedToMatch, s2)"
    using h by (simp add: parse_batch_episodes_def)
  show "take (length (episodes s)) (episodes s2) = episodes s"
    using parse_batch_episodes_loop_grows [OF run] by simp
  show "episode_numbers_collected s \<subseteq> episode_numbers_collected s2"
    using parse_batch_episodes_loop_grows [OF run] by simp
  show "\<forall>d\<in>set pre. \<forall>t' f l r a b. i_tag d = Text t'
                \<and> batch_episodes_data_regex t' = Some (f, l, r)
                \<and> py_int f = Inr a \<and> py_int l = Inr b \<and> a \<le> b
              \<longrightarrow> (\<exists>e\<in>set (episodes s2). episode_number e = PList [a..b])"
    using parse_batch_episodes_loop_has_entry [OF run] by blast
qed

theorem parse_error_keeps_earlier_additions_witness:
  "parse_episodes
     (web_of [] [(''page'', [blk ''Show 06 720p'' ''magnet:?xt=six'',
                             blk ''Show - 05 [1080p]'' ''magnet:?xt=five''])])
     \<lparr>show_id = PStr ''731'', episodes_available = Some {PInt 1, PInt 2}, all_episodes_acquired = False,
      threads = [], episodes = [], episode_numbers_collected = {}, episodes_page_number = 0\<rparr>
     ''page''
   = (Raise RegexFailedToMatch,
      \<lparr>show_id = PStr ''731'', episodes_available = Some {PInt 1, PInt 2}, all_episodes_acquired = False,
       threads = [],
       episodes = [\<lparr>episode_number = PStr ''05'', video_resolution = ''1080p'',
                    magnet_url = ''magnet:?xt=five''\<rparr>],
       episode_numbers_collected = {PStr ''05''}, episodes_page_number = 0\<rparr>)
   \<and> parse_batch_episodes
     (web_of [] [(''page'', [blk ''Show 1-2 720p'' ''magnet:?xt=bad'',
                             blk ''Show (1-2) [1080p]'' ''magnet:?xt=batch''])])
     \<lparr>show_id = PStr ''731'', episodes_available = Some {PInt 1, PInt 2}, all_episodes_acquired = False,
      threads = [], episodes = [], episode_numbers_collected = {}, episodes_page_number = 0\<rparr>
     ''page''
   = (Raise RegexFailedToMatch,
      \<lparr>show_id = PStr ''731'', episodes_available = Some {PInt 1, PInt 2}, all_episodes_acquired = False,
       threads = [],
       episodes = [\<lparr>episode_number = PList [1, 2], video_resolution = ''1080p'',
                    magnet_url = ''magnet:?xt=batch''\<rparr>],
       episode_numbers_collected = {PInt 1, PInt 2}, episodes_page_number = 0\<rparr>)"
proof -
  let ?w = "web_of [] [(''page'', [blk ''Show 06 720p'' ''magnet:?xt=six'',
                             blk ''Show - 05 [1080p]'' ''magnet:?xt=five''])]"
  let ?v = "web_of [] [(''page'', [blk ''Show 1-2 720p'' ''magnet:?xt=bad'',
                             blk ''Show (1-2) [1080p]'' ''magnet:?xt=batch''])]"
  let ?s = "\<lparr>show_id = PStr ''731'', episodes_available = Some {PInt 1, PInt 2},
      all_episodes_acquired = False,
      threads = [], episodes = [], episode_numbers_collected = {}, episodes_page_number = 0\<rparr>"
  let ?s1 = "\<lparr>show_id = PStr ''731'', episodes_available = Some {PInt 1, PInt 2},
       all_episodes_acquired = False, threads = [],
       episodes = [\<lparr>episode_number = PStr ''05'', video_resolution = ''1080p'',
                    magnet_url = ''magnet:?xt=five''\<rparr>],
       episode_numbers_collected = {PStr ''05''}, episodes_page_number = 0\<rparr>"
  let ?s2 = "\<lparr>show_id = PStr ''731'', episodes_available = Some {PInt 1, PInt 2},
       all_episodes_acquired = False, threads = [],
       episodes = [\<lparr>episode_number = PList [1, 2], video_resolution = ''1080p'',
                    magnet_url = ''magnet:?xt=batch''\<rparr>],
       episode_numbers_collected = {PInt 1, PInt 2}, episodes_page_number = 0\<rparr>"
  have good1: "episode_data_regex ''Show - 05 [1080p]'' = Some (''05'', ''1080p'')"
    by (simp add: regex_eval)
  have bad1: "episode_data_regex ''Show 06 720p'' = None"
    by (simp add: regex_eval)
  have good2: "batch_episodes_data_regex ''Show (1-2) [1080p]'' = Some (''1'', ''2'', ''1080p'')"
    by (simp add: regex_eval)
  have bad2: "batch_episodes_data_regex ''Show 1-2 720p'' = None"
    by (simp add: regex_eval)
  have ints: "py_int ''1'' = Inr 1" "py_int ''2'' = Inr 2"
    by (simp_all add: py_int_def is_digit_def digit_val_def)
  have p1: "rev (release_links ?w ''page'') =
      [blk ''Show - 05 [1080p]'' ''magnet:?xt=five''] @ blk ''Show 06 720p'' ''magnet:?xt=six'' # []"
    by (simp add: web_of_def)
  have p2: "rev (release_links ?v ''page'') =
      [blk ''Show (1-2) [1080p]'' ''magnet:?xt=batch''] @ blk ''Show 1-2 720p'' ''magnet:?xt=bad'' # []"
    by (simp add: web_of_def)
  have l1: "parse_episodes_loop ?s [blk ''Show - 05 [1080p]'' ''magnet:?xt=five''] = (Ok, ?s1)"
    by (simp add: blk_def good1 magnet_href_def add_episode_def)
  have l2: "parse_batch_episodes_loop ?s [blk ''Show (1-2) [1080p]'' ''magnet:?xt=batch''] = (Ok, ?s2)"
    by (simp add: blk_def good2 ints magnet_href_def add_episode_def py_range_def upto.simps)
  have t1: "i_tag (blk ''Show 06 720p'' ''magnet:?xt=six'') = Text ''Show 06 720p''"
    and t2: "i_tag (blk ''Show 1-2 720p'' ''magnet:?xt=bad'') = Text ''Show 1-2 720p''"
    by (simp_all add: blk_def)
  have one: "parse_episodes ?w ?s ''page'' = (Raise RegexFailedToMatch, ?s1)"
    using parse_error_keeps_earlier_additions
      [of ?w "''page''" _ _ _ ?s ?s1 "''Show 06 720p''", THEN conjunct1] p1 l1 t1 bad1
    by blast
  have two: "parse_batch_episodes ?v ?s ''page'' = (Raise RegexFailedToMatch, ?s2)"
    using parse_error_keeps_earlier_additions
      [of ?v "''page''" _ _ _ ?s _ "''Show 1-2 720p''" ?s2, THEN conjunct2] p2 l2 t2 bad2
    by blast
  from one two show ?thesis by simp
qed

section \<open>A show with batch releases only\<close>

lemma exec_no_threads_Returned:
  "threads s = [] \<Longrightarrow> exec w a (s, Returned) = (s, Returned)"
  by (cases a) simp_all

lemma run_no_threads_Returned:
  "threads s = [] \<Longrightarrow> run w sched (s, Returned) = (s, Returned)"
  by (induction sched) (simp_all add: exec_no_threads_Returned)

lemma parse_batch_episodes_loop_well_formed:
  "\<forall>d\<in>set ds. \<exists>t f l r a b m. i_tag d = Text t \<and> batch_episodes_data_regex t = Some (f, l, r)
       \<and> py_int f = Inr a \<and> py_int l = Inr b \<and> magnet_href d = Inr m
   \<Longrightarrow> fst (parse_batch_episodes_loop s ds) = Ok"
proof (induction ds arbitrary: s)
  case Nil
  then show ?case by simp
next
  case (Cons d ds)
  then obtain t f l r a b m where d: "i_tag d = Text t" "batch_episodes_data_regex t = Some (f, l, r)"
       "py_int f = Inr a" "py_int l = Inr b" "magnet_href d = Inr m"
    by auto
  from Cons.prems have rest: "\<forall>d\<in>set ds. \<exists>t f l r a b m. i_tag d = Text t
       \<and> batch_episodes_data_regex t = Some (f, l, r)
       \<and> py_int f = Inr a \<and> py_int l = Inr b \<and> magnet_href d = Inr m"
    by simp
  show ?case
  proof (cases rule: parse_batch_episodes_loop_Cons_cases [of s d])
    case (stop e)
    from stop [of "[]"] d show ?thesis
      by (simp add: Let_def split: if_splits)
  next
    case (skip t f l r a b)
    with Cons.IH [OF rest] show ?thesis by simp
  next
    case (add t f l r a b m)
    with Cons.IH [OF rest] show ?thesis by simp
  qed
qed

lemma parse_batch_episodes_loop_all_present:
  "\<forall>d\<in>set ds. \<exists>t f l r m. i_tag d = Text t \<and> batch_episodes_data_regex t = Some (f, l, r)
       \<and> py_int f = Inr a \<and> py_int l = Inr b \<and> magnet_href d = Inr m
   \<Longrightarrow> \<exists>e\<in>set (episodes s). episode_number e = PList [a..b]
   \<Longrightarrow> parse_batch_episodes_loop s ds = (Ok, s)"
proof (induction ds)
  case Nil
  then show ?case by simp
next
  case (Cons d ds)
  then obtain t f l r m where d: "i_tag d = Text t" "batch_episodes_data_regex t = Some (f, l, r)"
       "py_int f = Inr a" "py_int l = Inr b" "magnet_href d = Inr m"
    by auto
  have "parse_batch_episodes_loop s (d # ds) = parse_batch_episodes_loop s ds"
    using d Cons.prems(2) by (auto simp: py_range_def)
  with Cons show ?case by simp
qed

text \<open>
  Claim C7. The constructor is given a show URL only and finds the show id. If the
  single-episode listing has no release block and every block of the batch page is well
  formed (its label matches the batch pattern with two non-empty digit groups, and it has a
  magnet link), then the constructor does not raise: \<^verbatim>\<open>episodes_available\<close> is
  \<^verbatim>\<open>None\<close>, the collection is the one the batch loop builds from the empty collection,
  \<^verbatim>\<open>parse_all_in_parallel\<close> is not entered (the constructor has returned, no thread was
  started, the page number is still 0), and no schedule changes anything afterwards. If
  moreover all blocks of the batch page carry one range \<open>a..b\<close> with \<open>a \<le> b\<close> (one batch
  release, in one or several resolutions), the collection holds exactly one entry: that of
  the last block of the page, with the episode number the list \<open>a, ..., b\<close>.
\<close>

theorem batch_only_show_is_scraped_without_pagination:
  assumes "\<not> truthy sid" and "show_url = Some u" and "u \<noteq> []"
    and "show_id_regex (get_html w u) = Some g"
    and "release_links w (get_html w (episodes_url ''show'' (PStr g))) = []"
    and "release_links w (get_html w (episodes_url ''batch'' (PStr g))) = blocks"
    and "\<forall>d\<in>set blocks. \<exists>t f l r a b m. i_tag d = Text t
             \<and> batch_episodes_data_regex t = Some (f, l, r)
             \<and> py_int f = Inr a \<and> py_int l = Inr b \<and> magnet_href d = Inr m"
  shows "\<exists>s1. init w sid show_url = Inr (s1, Returned)
           \<and> parse_batch_episodes_loop
                \<lparr>show_id = PStr g, episodes_available = None, all_episodes_acquired = False,
                 threads = [], episodes = [], episode_numbers_collected = {},
                 episodes_page_number = 0\<rparr> (rev blocks) = (Ok, s1)
           \<and> episodes_available s1 = None \<and> threads s1 = [] \<and> episodes_page_number s1 = 0
           \<and> (\<forall>sched. run w sched (s1, Returned) = (s1, Returned))
           \<and> (blocks \<noteq> [] \<and> a \<le> b
                \<and> (\<forall>d\<in>set blocks. \<exists>t f l r m. i_tag d = Text t
                       \<and> batch_episodes_data_regex t = Some (f, l, r)
                       \<and> py_int f = Inr a \<and> py_int l = Inr b \<and> magnet_href d = Inr m)
                \<and> i_tag (last blocks) = Text t' \<and> batch_episodes_data_regex t' = Some (f', l', r')
                \<and> magnet_href (last blocks) = Inr m'
              \<longrightarrow> episodes s1 = [\<lparr>episode_number = PList [a..b], video_resolution = r',
                                   magnet_url = m'\<rparr>]
                  \<and> episode_numbers_collected s1 = PInt ` set [a..b])"
proof -
  let ?start = "\<lparr>show_id = PStr g, episodes_available = None, all_episodes_acquired = False,
                 threads = [], episodes = [], episode_numbers_collected = {},
                 episodes_page_number = 0\<rparr>"
  have r: "resolve_show_id w sid show_url = Inr (PStr g)"
    using assms(1-4)
    by (simp add: resolve_show_id_def url_truthy_def url_text_def get_show_id_from_url_def)
  have m: "get_most_recent_episode_number w (episodes_url ''show'' (PStr g)) = Inl HorribleSubsException"
    using assms(5) by (simp add: get_most_recent_episode_number_def)
  have av: "compute_episodes_available w (episodes_url ''show'' (PStr g)) = Inr None"
    using m by (simp add: compute_episodes_available_def caught_def)
  have "\<forall>d\<in>set (rev blocks). \<exists>t f l r a b m. i_tag d = Text t
             \<and> batch_episodes_data_regex t = Some (f, l, r)
             \<and> py_int f = Inr a \<and> py_int l = Inr b \<and> magnet_href d = Inr m"
    using assms(7) by simp
  then have "fst (parse_batch_episodes_loop ?start (rev blocks)) = Ok"
    by (rule parse_batch_episodes_loop_well_formed)
  then obtain s1 where s1: "parse_batch_episodes_loop ?start (rev blocks) = (Ok, s1)"
    by (cases "parse_batch_episodes_loop ?start (rev blocks)") simp
  note g = parse_batch_episodes_loop_grows [OF s1]
  have fields: "episodes_available s1 = None" "threads s1 = []" "episodes_page_number s1 = 0"
    using g by simp_all
  have i: "init w sid show_url = Inr (s1, Returned)"
    using r av s1 assms(6) fields
    by (simp add: init_def parse_batch_episodes_def set_truthy_def)
  have stay: "\<forall>sched. run w sched (s1, Returned) = (s1, Returned)"
    using fields by (simp add: run_no_threads_Returned)
  have single: "episodes s1 = [\<lparr>episode_number = PList [a..b], video_resolution = r',
                                   magnet_url = m'\<rparr>]
                  \<and> episode_numbers_collected s1 = PInt ` set [a..b]"
    if h: "blocks \<noteq> [] \<and> a \<le> b
                \<and> (\<forall>d\<in>set blocks. \<exists>t f l r m. i_tag d = Text t
                       \<and> batch_episodes_data_regex t = Some (f, l, r)
                       \<and> py_int f = Inr a \<and> py_int l = Inr b \<and> magnet_href d = Inr m)
                \<and> i_tag (last blocks) = Text t' \<and> batch_episodes_data_regex t' = Some (f', l', r')
                \<and> magnet_href (last blocks) = Inr m'"
  proof -
    from h have ne: "[a..b] \<noteq> []" by (simp add: upto.simps)
    from h have rv: "rev blocks = last blocks # rev (butlast blocks)"
      by (metis append_butlast_last_id rev_append rev_singleton_conv append_Cons append_Nil)
    from h have lastwf: "\<exists>t f l r m. i_tag (last blocks) = Text t
                       \<and> batch_episodes_data_regex t = Some (f, l, r)
                       \<and> py_int f = Inr a \<and> py_int l = Inr b \<and> magnet_href (last blocks) = Inr m"
      by (meson last_in_set)
    with h have ints: "py_int f' = Inr a" "py_int l' = Inr b"
      by auto
    let ?added = "add_episode PNone (Some [a..b]) r' m' ?start"
    have first: "parse_batch_episodes_loop ?start (last blocks # rev (butlast blocks)) =
        parse_batch_episodes_loop ?added (rev (butlast blocks))"
      using h ints by (simp add: py_range_def)
    have "\<forall>d\<in>set (rev (butlast blocks)). \<exists>t f l r m. i_tag d = Text t
                       \<and> batch_episodes_data_regex t = Some (f, l, r)
                       \<and> py_int f = Inr a \<and> py_int l = Inr b \<and> magnet_href d = Inr m"
      using h by (auto dest: in_set_butlastD)
    moreover have "\<exists>e\<in>set (episodes ?added). episode_number e = PList [a..b]"
      using ne by (simp add: add_episode_def)
    ultimately have skipped: "parse_batch_episodes_loop ?added (rev (butlast blocks)) = (Ok, ?added)"
      by (rule parse_batch_episodes_loop_all_present)
    have "(Ok, s1) = parse_batch_episodes_loop ?start (last blocks # rev (butlast blocks))"
      using s1 by (simp only: rv)
    also have "\<dots> = (Ok, ?added)"
      by (simp only: first skipped)
    finally have "s1 = ?added" by simp
    then show ?thesis using ne by (simp add: add_episode_def)
  qed
  from i s1 fields stay single show ?thesis by blast
qed

theorem batch_only_show_is_scraped_without_pagination_witness:
  "(case init
      (web_of [(''http://horriblesubs.info/shows/x'', ''<script>var hs_showid = 731;</script>''),
               (''https://horriblesubs.info/api.php?method=getshows&type=show&showid=731'',
                ''no episodes''),
               (''https://horriblesubs.info/api.php?method=getshows&type=batch&showid=731'',
                ''batches'')]
              [(''batches'', [blk ''Show (1-13) [480p]'' ''magnet:?xt=low'',
                              blk ''Show (1-13) [720p]'' ''magnet:?xt=mid'',
                              blk ''Show (1-13) [1080p]'' ''magnet:?xt=high''])])
      PNone (Some ''http://horriblesubs.info/shows/x'') of
      Inl e \<Rightarrow> False
    | Inr (s, pc) \<Rightarrow>
        pc = Returned \<and> episodes_available s = None \<and> threads s = []
        \<and> episodes_page_number s = 0
        \<and> episodes s = [\<lparr>episode_number = PList [1, 2, 3, 4, 5, 6, 7, 8, 9, 10, 11, 12, 13],
                          video_resolution = ''1080p'', magnet_url = ''magnet:?xt=high''\<rparr>])"
proof -
  let ?u = "''http://horriblesubs.info/shows/x''"
  let ?blocks = "[blk ''Show (1-13) [480p]'' ''magnet:?xt=low'',
                  blk ''Show (1-13) [720p]'' ''magnet:?xt=mid'',
                  blk ''Show (1-13) [1080p]'' ''magnet:?xt=high'']"
  let ?w = "web_of [(?u, ''<script>var hs_showid = 731;</script>''),
               (''https://horriblesubs.info/api.php?method=getshows&type=show&showid=731'',
                ''no episodes''),
               (''https://horriblesubs.info/api.php?method=getshows&type=batch&showid=731'',
                ''batches'')]
              [(''batches'', ?blocks)]"
  have sid: "show_id_regex (get_html ?w ?u) = Some ''731''"
    by (simp add: web_of_def regex_eval)
  have listing: "release_links ?w (get_html ?w (episodes_url ''show'' (PStr ''731''))) = []"
    by (simp add: web_of_def episodes_url_def)
  have batch: "release_links ?w (get_html ?w (episodes_url ''batch'' (PStr ''731''))) = ?blocks"
    by (simp add: web_of_def episodes_url_def)
  have r1: "batch_episodes_data_regex ''Show (1-13) [480p]'' = Some (''1'', ''13'', ''480p'')"
    and r2: "batch_episodes_data_regex ''Show (1-13) [720p]'' = Some (''1'', ''13'', ''720p'')"
    and r3: "batch_episodes_data_regex ''Show (1-13) [1080p]'' = Some (''1'', ''13'', ''1080p'')"
    by (simp_all add: regex_eval)
  have ints: "py_int ''1'' = Inr 1" "py_int ''13'' = Inr 13"
    by (simp_all add: py_int_def is_digit_def digit_val_def)
  have same: "\<forall>d\<in>set ?blocks. \<exists>t f l r m. i_tag d = Text t
                       \<and> batch_episodes_data_regex t = Some (f, l, r)
                       \<and> py_int f = Inr 1 \<and> py_int l = Inr 13 \<and> magnet_href d = Inr m"
    by (simp add: blk_def magnet_href_def r1 r2 r3 ints)
  then have wf: "\<forall>d\<in>set ?blocks. \<exists>t f l r a b m. i_tag d = Text t
             \<and> batch_episodes_data_regex t = Some (f, l, r)
             \<and> py_int f = Inr a \<and> py_int l = Inr b \<and> magnet_href d = Inr m"
    by blast
  have lastb: "i_tag (last ?blocks) = Text ''Show (1-13) [1080p]''"
      "magnet_href (last ?blocks) = Inr ''magnet:?xt=high''"
    by (simp_all add: blk_def magnet_href_def)
  have u: "[1..13::int] = [1, 2, 3, 4, 5, 6, 7, 8, 9, 10, 11, 12, 13]"
    by (simp add: upto.simps)
  from batch_only_show_is_scraped_without_pagination
    [of PNone "Some ?u" ?u ?w "''731''" ?blocks 1 13 "''Show (1-13) [1080p]''" "''1''" "''13''"
        "''1080p''" "''magnet:?xt=high''", OF _ refl _ sid listing batch wf]
  obtain s1 where "init ?w PNone (Some ?u) = Inr (s1, Returned)"
    and "episodes_available s1 = None" "threads s1 = []" "episodes_page_number s1 = 0"
    and "episodes s1 = [\<lparr>episode_number = PList [1..13],
                          video_resolution = ''1080p'', magnet_url = ''magnet:?xt=high''\<rparr>]"
    using same lastb r3 by force
  then show ?thesis by (simp add: u)
qed

section \<open>Schedules on the example show\<close>

lemmas run_eval =
  get_next_page_html_def episodes_page_url_def episodes_url_def web_of_def blk_def
  parse_episodes_def magnet_href_def add_episode_def

lemma str_nat_digits [simp]: "str_nat 0 = ''0''" "str_nat 1 = ''1''" "str_nat (Suc 0) = ''1''"
  by code_simp+

lemma str_nat_two [simp]: "str_nat 2 = ''2''" "str_nat (Suc (Suc 0)) = ''2''"
  by code_simp+

lemma example_init:
  "init example_web PNone (Some ''http://horriblesubs.info/shows/x'') = Inr example_start"
proof -
  let ?s = "\<lparr>show_id = PStr ''731'', episodes_available = Some {PInt 1},
          all_episodes_acquired = False, threads = [],
          episodes = [], episode_numbers_collected = {}, episodes_page_number = 0\<rparr>"
  have label: "episode_data_regex ''Show - 1 [1080p]'' = Some (''1'', ''1080p'')"
    by (simp add: regex_eval)
  have sid: "resolve_show_id example_web PNone (Some ''http://horriblesubs.info/shows/x'')
      = Inr (PStr ''731'')"
    by (simp add: resolve_show_id_def url_truthy_def url_text_def get_show_id_from_url_def
          example_web_def web_of_def regex_eval)
  have av: "compute_episodes_available example_web (episodes_url ''show'' (PStr ''731''))
      = Inr (Some {PInt 1})"
    by (simp add: compute_episodes_available_def get_most_recent_episode_number_def
          example_web_def run_eval label py_int_def is_digit_def digit_val_def py_range_def
          upto.simps)
  have batch: "parse_batch_episodes example_web ?s
        (get_html example_web (episodes_url ''batch'' (PStr ''731''))) = (Ok, ?s)"
    by (simp add: parse_batch_episodes_def example_web_def web_of_def episodes_url_def)
  have enter: "parse_all_in_parallel_enter example_web ?s = example_start"
    by (simp add: parse_all_in_parallel_enter_def example_web_def example_start_def run_eval)
  show ?thesis
    by (simp add: init_def sid av batch enter set_truthy_def)
qed

lemma example_return:
  "run example_web [Coordinator, Coordinator] example_start =
     (\<lparr>show_id = PStr ''731'', episodes_available = Some {PInt 1},
       all_episodes_acquired = False,
       threads = [\<lparr>thread_name = ''ep_parse_0'', thread_args = ''page 0'',
                   thread_outcome = None\<rparr>],
       episodes = [], episode_numbers_collected = {}, episodes_page_number = 1\<rparr>,
      Returned)"
  by (simp add: example_web_def example_start_def run_eval)

lemma example_late_worker:
  "run example_web [Coordinator, Coordinator, Worker 0] example_start =
     (\<lparr>show_id = PStr ''731'', episodes_available = Some {PInt 1},
       all_episodes_acquired = False,
       threads = [\<lparr>thread_name = ''ep_parse_0'', thread_args = ''page 0'',
                   thread_outcome = Some Ok\<rparr>],
       episodes = [\<lparr>episode_number = PStr ''1'', video_resolution = ''1080p'',
                    magnet_url = ''magnet:?xt=high''\<rparr>],
       episode_numbers_collected = {PStr ''1''}, episodes_page_number = 1\<rparr>,
      Returned)"
proof -
  have label: "episode_data_regex ''Show - 1 [1080p]'' = Some (''1'', ''1080p'')"
     "episode_data_regex ''Show - 1 [480p]'' = Some (''1'', ''480p'')"
    by (simp_all add: regex_eval)
  show ?thesis
    by (simp add: example_web_def example_start_def run_eval label)
qed

section \<open>The completion flag\<close>

lemma parse_episodes_fields:
  assumes "parse_episodes w s html = (out, s1)"
  shows "threads s1 = threads s" and "episodes_page_number s1 = episodes_page_number s"
    and "show_id s1 = show_id s" and "episodes_available s1 = episodes_available s"
    and "all_episodes_acquired s \<Longrightarrow> all_episodes_acquired s1"
    and "take (length (episodes s)) (episodes s1) = episodes s"
    and "episode_numbers_collected s \<subseteq> episode_numbers_collected s1"
proof -
  obtain o' s' where l: "parse_episodes_loop s (rev (release_links w html)) = (o', s')"
    by (cases "parse_episodes_loop s (rev (release_links w html))")
  note g = parse_episodes_loop_grows [OF l]
  from assms l have s1: "s1 = s' \<or> s1 = s'\<lparr>all_episodes_acquired := True\<rparr>"
    by (auto simp: parse_episodes_def split: outcome.splits if_splits)
  from s1 g show "threads s1 = threads s" "episodes_page_number s1 = episodes_page_number s"
    "show_id s1 = show_id s" "episodes_available s1 = episodes_available s"
    "all_episodes_acquired s \<Longrightarrow> all_episodes_acquired s1"
    "take (length (episodes s)) (episodes s1) = episodes s"
    "episode_numbers_collected s \<subseteq> episode_numbers_collected s1"
    by auto
qed

lemma parse_episodes_flag:
  "parse_episodes w s html = (Ok, s1)
   \<Longrightarrow> all_episodes_acquired s1 =
        (all_episodes_acquired s \<or> Some (episode_numbers_collected s1) = episodes_available s1)"
proof -
  assume a: "parse_episodes w s html = (Ok, s1)"
  obtain o' s' where l: "parse_episodes_loop s (rev (release_links w html)) = (o', s')"
    by (cases "parse_episodes_loop s (rev (release_links w html))")
  note g = parse_episodes_loop_grows [OF l]
  from a l have "o' = Ok" by (auto simp: parse_episodes_def split: outcome.splits)
  with a l g show ?thesis
    by (auto simp: parse_episodes_def split: if_splits)
qed

lemma parse_episodes_flag_Raise:
  "parse_episodes w s html = (Raise e, s1) \<Longrightarrow> all_episodes_acquired s1 = all_episodes_acquired s"
proof -
  assume a: "parse_episodes w s html = (Raise e, s1)"
  obtain o' s' where l: "parse_episodes_loop s (rev (release_links w html)) = (o', s')"
    by (cases "parse_episodes_loop s (rev (release_links w html))")
  note g = parse_episodes_loop_grows [OF l]
  from a l have "s1 = s'" by (auto simp: parse_episodes_def split: outcome.splits)
  with g show ?thesis by simp
qed

text \<open>What one action of a schedule may change.\<close>

lemma exec_flag_stays:
  "all_episodes_acquired (fst c) \<Longrightarrow> all_episodes_acquired (fst (exec w a c))"
proof (cases c)
  case (Pair s pc)
  assume f: "all_episodes_acquired (fst c)"
  show ?thesis
  proof (cases a)
    case Coordinator
    with Pair f show ?thesis by (cases pc) simp_all
  next
    case (Worker i)
    show ?thesis
    proof (cases "i < length (threads s) \<and> thread_outcome (threads s ! i) = None")
      case True
      obtain out s1 where p: "parse_episodes w s (thread_args (threads s ! i)) = (out, s1)"
        by (cases "parse_episodes w s (thread_args (threads s ! i))")
      from parse_episodes_fields(5) [OF p] f Pair have "all_episodes_acquired s1" by simp
      with Pair Worker True p show ?thesis by simp
    next
      case False
      with Pair Worker f show ?thesis by auto
    qed
  qed
qed

lemma exec_flag_no_dispatch:
  "all_episodes_acquired (fst c)
   \<Longrightarrow> episodes_page_number (fst (exec w a c)) = episodes_page_number (fst c)
     \<and> map (\<lambda>t. (thread_name t, thread_args t)) (threads (fst (exec w a c))) =
       map (\<lambda>t. (thread_name t, thread_args t)) (threads (fst c))"
proof (cases c)
  case (Pair s pc)
  assume f: "all_episodes_acquired (fst c)"
  show ?thesis
  proof (cases a)
    case Coordinator
    with Pair f show ?thesis by (cases pc) simp_all
  next
    case (Worker i)
    show ?thesis
    proof (cases "i < length (threads s) \<and> thread_outcome (threads s ! i) = None")
      case True
      obtain out s1 where p: "parse_episodes w s (thread_args (threads s ! i)) = (out, s1)"
        by (cases "parse_episodes w s (thread_args (threads s ! i))")
      note fl = parse_episodes_fields(1,2) [OF p]
      have "map (\<lambda>t. (thread_name t, thread_args t))
              ((threads s)[i := (threads s ! i)\<lparr>thread_outcome := Some out\<rparr>]) =
            map (\<lambda>t. (thread_name t, thread_args t)) (threads s)"
        using True by (simp add: map_update list_update_same_conv)
      with Pair Worker True p fl show ?thesis by simp
    next
      case False
      with Pair Worker show ?thesis by auto
    qed
  qed
qed

lemma run_flag_stays:
  "all_episodes_acquired (fst c) \<Longrightarrow> all_episodes_acquired (fst (run w sched c))"
  by (induction sched arbitrary: c) (simp_all add: exec_flag_stays)

lemma run_flag_no_dispatch:
  "all_episodes_acquired (fst c)
   \<Longrightarrow> episodes_page_number (fst (run w sched c)) = episodes_page_number (fst c)
     \<and> map (\<lambda>t. (thread_name t, thread_args t)) (threads (fst (run w sched c))) =
       map (\<lambda>t. (thread_name t, thread_args t)) (threads (fst c))"
proof (induction sched arbitrary: c)
  case Nil
  then show ?case by simp
next
  case (Cons a sched)
  from Cons.prems have "all_episodes_acquired (fst (exec w a c))"
    by (rule exec_flag_stays)
  from Cons.IH [OF this] exec_flag_no_dispatch [OF Cons.prems, of w a]
  show ?case by simp
qed

lemma run_append: "run w (xs @ ys) c = run w ys (run w xs c)"
  by (induction xs arbitrary: c) simp_all

text \<open>
  The flag as the code handles it. A call of \<^verbatim>\<open>parse_episodes\<close> that ends normally
  leaves the completion flag true exactly if it was true before or the collected numbers now
  equal \<^verbatim>\<open>episodes_available\<close>; a call that raises does not reach the comparison.
  Nothing resets the flag: once it is true after some part \<open>before\<close> of a schedule, it is
  true after every continuation of it. From then on the page number is not incremented and
  no thread is added to \<^verbatim>\<open>self.threads\<close>; the next test of the loop condition by the
  constructor's thread leaves the loop.
\<close>

lemma completion_flag_law:
  "(parse_episodes w s html = (Ok, s1)
      \<longrightarrow> all_episodes_acquired s1 =
          (all_episodes_acquired s
           \<or> Some (episode_numbers_collected s1) = episodes_available s1))
   \<and> (parse_episodes w s html = (Raise e, s1)
      \<longrightarrow> all_episodes_acquired s1 = all_episodes_acquired s)
   \<and> (all_episodes_acquired (fst (run w before c))
      \<longrightarrow> all_episodes_acquired (fst (run w (before @ after) c))
        \<and> episodes_page_number (fst (run w (before @ after) c)) =
            episodes_page_number (fst (run w before c))
        \<and> map (\<lambda>t. (thread_name t, thread_args t)) (threads (fst (run w (before @ after) c))) =
            map (\<lambda>t. (thread_name t, thread_args t)) (threads (fst (run w before c))))
   \<and> (all_episodes_acquired (fst c) \<longrightarrow> snd (exec w Coordinator c) = Returned)"
proof (intro conjI impI)
  assume "parse_episodes w s html = (Ok, s1)"
  then show "all_episodes_acquired s1 =
          (all_episodes_acquired s
           \<or> Some (episode_numbers_collected s1) = episodes_available s1)"
    by (rule parse_episodes_flag)
next
  assume "parse_episodes w s html = (Raise e, s1)"
  then show "all_episodes_acquired s1 = all_episodes_acquired s"
    by (rule parse_episodes_flag_Raise)
next
  assume f: "all_episodes_acquired (fst (run w before c))"
  show "all_episodes_acquired (fst (run w (before @ after) c))"
    using run_flag_stays [OF f] by (simp add: run_append)
  show "episodes_page_number (fst (run w (before @ after) c)) =
            episodes_page_number (fst (run w before c))"
    using run_flag_no_dispatch [OF f] by (simp add: run_append)
  show "map (\<lambda>t. (thread_name t, thread_args t)) (threads (fst (run w (before @ after) c))) =
            map (\<lambda>t. (thread_name t, thread_args t)) (threads (fst (run w before c)))"
    using run_flag_no_dispatch [OF f] by (simp add: run_append)
next
  assume "all_episodes_acquired (fst c)"
  then show "snd (exec w Coordinator c) = Returned"
    by (cases c; cases "snd c") auto
qed

lemma completion_flag_law_example:
  "\<not> all_episodes_acquired (fst (run
       (web_of [(''https://horriblesubs.info/api.php?method=getshows&type=show&showid=731&nextid=1&_'',
                 ''page 1'')]
               [(''page 1'', [blk ''Show - 2 [1080p]'' ''magnet:?xt=two''])])
       [Coordinator]
       (\<lparr>show_id = PStr ''731'', episodes_available = Some {PInt 1, PInt 2},
         all_episodes_acquired = False, threads = [],
         episodes = [\<lparr>episode_number = PList [1, 2], video_resolution = ''1080p'',
                      magnet_url = ''magnet:?xt=batch''\<rparr>],
         episode_numbers_collected = {PInt 1, PInt 2}, episodes_page_number = 0\<rparr>,
        Loop ''page 0'')))
   \<and> run
       (web_of [(''https://horriblesubs.info/api.php?method=getshows&type=show&showid=731&nextid=1&_'',
                 ''page 1'')]
               [(''page 1'', [blk ''Show - 2 [1080p]'' ''magnet:?xt=two''])])
       [Coordinator, Worker 0]
       (\<lparr>show_id = PStr ''731'', episodes_available = Some {PInt 1, PInt 2},
         all_episodes_acquired = False, threads = [],
         episodes = [\<lparr>episode_number = PList [1, 2], video_resolution = ''1080p'',
                      magnet_url = ''magnet:?xt=batch''\<rparr>],
         episode_numbers_collected = {PInt 1, PInt 2}, episodes_page_number = 0\<rparr>,
        Loop ''page 0'')
     = (\<lparr>show_id = PStr ''731'', episodes_available = Some {PInt 1, PInt 2},
         all_episodes_acquired = True,
         threads = [\<lparr>thread_name = ''ep_parse_0'', thread_args = ''page 0'',
                     thread_outcome = Some Ok\<rparr>],
         episodes = [\<lparr>episode_number = PList [1, 2], video_resolution = ''1080p'',
                      magnet_url = ''magnet:?xt=batch''\<rparr>],
         episode_numbers_collected = {PInt 1, PInt 2}, episodes_page_number = 1\<rparr>,
        Loop ''page 1'')
   \<and> episodes_page_number (fst (run
       (web_of [(''https://horriblesubs.info/api.php?method=getshows&type=show&showid=731&nextid=1&_'',
                 ''page 1'')]
               [(''page 1'', [blk ''Show - 2 [1080p]'' ''magnet:?xt=two''])])
       ([Coordinator, Worker 0] @ [Coordinator, Worker 0, Worker 1, Coordinator])
       (\<lparr>show_id = PStr ''731'', episodes_available = Some {PInt 1, PInt 2},
         all_episodes_acquired = False, threads = [],
         episodes = [\<lparr>episode_number = PList [1, 2], video_resolution = ''1080p'',
                      magnet_url = ''magnet:?xt=batch''\<rparr>],
         episode_numbers_collected = {PInt 1, PInt 2}, episodes_page_number = 0\<rparr>,
        Loop ''page 0''))) = 1"
proof -
  let ?w = "web_of [(''https://horriblesubs.info/api.php?method=getshows&type=show&showid=731&nextid=1&_'',
                 ''page 1'')]
               [(''page 1'', [blk ''Show - 2 [1080p]'' ''magnet:?xt=two''])]"
  let ?c = "(\<lparr>show_id = PStr ''731'', episodes_available = Some {PInt 1, PInt 2},
         all_episodes_acquired = False, threads = [],
         episodes = [\<lparr>episode_number = PList [1, 2], video_resolution = ''1080p'',
                      magnet_url = ''magnet:?xt=batch''\<rparr>],
         episode_numbers_collected = {PInt 1, PInt 2}, episodes_page_number = 0\<rparr>,
        Loop ''page 0'')"
  have one: "run ?w [Coordinator] ?c =
      (\<lparr>show_id = PStr ''731'', episodes_available = Some {PInt 1, PInt 2},
         all_episodes_acquired = False,
         threads = [\<lparr>thread_name = ''ep_parse_0'', thread_args = ''page 0'',
                     thread_outcome = None\<rparr>],
         episodes = [\<lparr>episode_number = PList [1, 2], video_resolution = ''1080p'',
                      magnet_url = ''magnet:?xt=batch''\<rparr>],
         episode_numbers_collected = {PInt 1, PInt 2}, episodes_page_number = 1\<rparr>,
        Loop ''page 1'')"
    by (simp add: run_eval)
  have two: "run ?w [Coordinator, Worker 0] ?c =
      (\<lparr>show_id = PStr ''731'', episodes_available = Some {PInt 1, PInt 2},
         all_episodes_acquired = True,
         threads = [\<lparr>thread_name = ''ep_parse_0'', thread_args = ''page 0'',
                     thread_outcome = Some Ok\<rparr>],
         episodes = [\<lparr>episode_number = PList [1, 2], video_resolution = ''1080p'',
                      magnet_url = ''magnet:?xt=batch''\<rparr>],
         episode_numbers_collected = {PInt 1, PInt 2}, episodes_page_number = 1\<rparr>,
        Loop ''page 1'')"
    by (simp add: run_eval)
  have flag: "all_episodes_acquired (fst (run ?w [Coordinator, Worker 0] ?c))"
    by (simp only: two) simp
  from completion_flag_law [of ?w _ _ _ _ "[Coordinator, Worker 0]" ?c
      "[Coordinator, Worker 0, Worker 1, Coordinator]", THEN conjunct2, THEN conjunct2, THEN conjunct1]
    flag
  have "episodes_page_number (fst (run ?w ([Coordinator, Worker 0] @
           [Coordinator, Worker 0, Worker 1, Coordinator]) ?c)) =
        episodes_page_number (fst (run ?w [Coordinator, Worker 0] ?c))"
    by blast
  also have "\<dots> = 1" by (simp only: two) simp
  finally show ?thesis using one two by simp
qed

text \<open>
  The comparison is between the collected numbers, to which \<^verbatim>\<open>parse_episodes\<close> adds
  strings, and \<^verbatim>\<open>episodes_available\<close>, which the constructor builds from integers. A
  call of \<^verbatim>\<open>parse_episodes\<close> that turns the flag on has therefore appended nothing.
\<close>

lemma parse_episodes_loop_adds_string:
  "parse_episodes_loop s ds = (out, s1) \<Longrightarrow> episodes s1 \<noteq> episodes s
   \<Longrightarrow> \<exists>n. PStr n \<in> episode_numbers_collected s1"
proof (induction ds arbitrary: s)
  case Nil
  then show ?case by simp
next
  case (Cons d ds)
  show ?case
  proof (cases rule: parse_episodes_loop_Cons_cases [of s d])
    case (stop e)
    with Cons.prems show ?thesis by simp
  next
    case (skip t n r)
    with Cons show ?thesis by simp
  next
    case (add t n r m)
    with Cons.prems have run: "parse_episodes_loop (add_episode (PStr n) None r m s) ds = (out, s1)"
      by simp
    from parse_episodes_loop_grows [OF run] have "PStr n \<in> episode_numbers_collected s1"
      by auto
    then show ?thesis ..
  qed
qed

lemma flag_on_means_nothing_added:
  assumes "parse_episodes w s html = (out, s1)"
    and "\<not> all_episodes_acquired s" and "all_episodes_acquired s1"
    and "episodes_available s = Some A" and "A \<subseteq> range PInt"
  shows "episodes s1 = episodes s"
proof (rule ccontr)
  assume changed: "episodes s1 \<noteq> episodes s"
  obtain o' s' where l: "parse_episodes_loop s (rev (release_links w html)) = (o', s')"
    by (cases "parse_episodes_loop s (rev (release_links w html))")
  note g = parse_episodes_loop_grows [OF l]
  from assms(1) l have s1: "s1 = s' \<or> s1 = s'\<lparr>all_episodes_acquired := True\<rparr>"
    by (auto simp: parse_episodes_def split: outcome.splits if_splits)
  with changed have "episodes s' \<noteq> episodes s" by auto
  from parse_episodes_loop_adds_string [OF l this]
  obtain n where n: "PStr n \<in> episode_numbers_collected s'" ..
  from assms(1-3) l g have "Some (episode_numbers_collected s') = episodes_available s'"
    by (auto simp: parse_episodes_def split: outcome.splits if_splits)
  with g assms(4) have "episode_numbers_collected s' = A" by simp
  with n assms(5) show False by auto
qed

lemma init_available_integers:
  assumes "init w sid show_url = Inr (s, pc)" and "episodes_available s = Some A"
  shows "A \<subseteq> range PInt"
proof -
  from assms(1) obtain g av where
    av: "compute_episodes_available w (episodes_url ''show'' g) = Inr av"
    and c0: "(case parse_batch_episodes w
            \<lparr>show_id = g, episodes_available = av, all_episodes_acquired = False, threads = [],
             episodes = [], episode_numbers_collected = {}, episodes_page_number = 0\<rparr>
            (get_html w (episodes_url ''batch'' g)) of
          (Raise e, s') \<Rightarrow> Inl e
        | (Ok, s') \<Rightarrow> if set_truthy (episodes_available s')
                       then Inr (parse_all_in_parallel_enter w s') else Inr (s', Returned))
         = Inr (s, pc)"
    by (auto simp: init_def Let_def split: sum.splits)
  let ?s = "\<lparr>show_id = g, episodes_available = av, all_episodes_acquired = False, threads = [],
             episodes = [], episode_numbers_collected = {}, episodes_page_number = 0\<rparr>"
  obtain out s1 where b: "parse_batch_episodes_loop ?s
       (rev (release_links w (get_html w (episodes_url ''batch'' g)))) = (out, s1)"
    by (cases "parse_batch_episodes_loop ?s
       (rev (release_links w (get_html w (episodes_url ''batch'' g))))")
  from parse_batch_episodes_loop_grows [OF b] have "episodes_available s1 = av" by simp
  moreover have "episodes_available (fst (parse_all_in_parallel_enter w s1)) = episodes_available s1"
    by (simp add: parse_all_in_parallel_enter_def get_next_page_html_def)
  ultimately have "episodes_available s = av"
    using c0 b by (cases out) (auto simp: parse_batch_episodes_def split: if_splits)
  with assms(2) have "av = Some A" by simp
  with av show ?thesis
    by (auto simp: compute_episodes_available_def split: sum.splits if_splits)
qed

lemma two_episode_init:
  "init two_episode_web PNone (Some ''http://horriblesubs.info/shows/x'') = Inr two_episode_start"
proof -
  let ?s = "\<lparr>show_id = PStr ''731'', episodes_available = Some {PInt 1, PInt 2},
          all_episodes_acquired = False, threads = [],
          episodes = [], episode_numbers_collected = {}, episodes_page_number = 0\<rparr>"
  have label: "episode_data_regex ''Show - 2 [1080p]'' = Some (''2'', ''1080p'')"
    by (simp add: regex_eval)
  have sid: "resolve_show_id two_episode_web PNone (Some ''http://horriblesubs.info/shows/x'')
      = Inr (PStr ''731'')"
    by (simp add: resolve_show_id_def url_truthy_def url_text_def get_show_id_from_url_def
          two_episode_web_def web_of_def regex_eval)
  have av: "compute_episodes_available two_episode_web (episodes_url ''show'' (PStr ''731''))
      = Inr (Some {PInt 1, PInt 2})"
    by (simp add: compute_episodes_available_def get_most_recent_episode_number_def
          two_episode_web_def run_eval label py_int_def is_digit_def digit_val_def py_range_def
          upto.simps)
  have batch: "parse_batch_episodes two_episode_web ?s
        (get_html two_episode_web (episodes_url ''batch'' (PStr ''731''))) = (Ok, ?s)"
    by (simp add: parse_batch_episodes_def two_episode_web_def web_of_def episodes_url_def)
  have enter: "parse_all_in_parallel_enter two_episode_web ?s = two_episode_start"
    by (simp add: parse_all_in_parallel_enter_def two_episode_web_def two_episode_start_def run_eval)
  show ?thesis
    by (simp add: init_def sid av batch enter set_truthy_def)
qed

lemma two_episode_labels:
  "episode_data_regex ''Show - 2 [1080p]'' = Some (''2'', ''1080p'')"
  "episode_data_regex ''Show - 1 [1080p]'' = Some (''1'', ''1080p'')"
  by (simp_all add: regex_eval)

text \<open>
  Claim C2. On the show with two episodes the constructor, called with the show URL, reaches
  the loop; the thread for page 0 collects both episodes, so every available episode is in
  the collection, and the flag is still false: the collected numbers are the strings
  \<^verbatim>\<open>'1'\<close> and \<^verbatim>\<open>'2'\<close>, the available ones the integers 1 and 2. The constructor's
  thread then dispatches page 1 and fetches the page after it instead of leaving the loop.
\<close>

theorem all_episodes_collected_flag_stays_false:
  "init two_episode_web PNone (Some ''http://horriblesubs.info/shows/x'') = Inr two_episode_start
   \<and> run two_episode_web [Coordinator, Worker 0] two_episode_start =
     (\<lparr>show_id = PStr ''731'', episodes_available = Some {PInt 1, PInt 2},
       all_episodes_acquired = False,
       threads = [\<lparr>thread_name = ''ep_parse_0'', thread_args = ''page 0'',
                   thread_outcome = Some Ok\<rparr>],
       episodes = [\<lparr>episode_number = PStr ''1'', video_resolution = ''1080p'',
                    magnet_url = ''magnet:?xt=one''\<rparr>,
                   \<lparr>episode_number = PStr ''2'', video_resolution = ''1080p'',
                    magnet_url = ''magnet:?xt=two''\<rparr>],
       episode_numbers_collected = {PStr ''2'', PStr ''1''}, episodes_page_number = 1\<rparr>,
      Loop ''page 1'')
   \<and> run two_episode_web [Coordinator, Worker 0, Coordinator] two_episode_start =
     (\<lparr>show_id = PStr ''731'', episodes_available = Some {PInt 1, PInt 2},
       all_episodes_acquired = False,
       threads = [\<lparr>thread_name = ''ep_parse_0'', thread_args = ''page 0'',
                   thread_outcome = Some Ok\<rparr>,
                  \<lparr>thread_name = ''ep_parse_1'', thread_args = ''page 1'',
                   thread_outcome = None\<rparr>],
       episodes = [\<lparr>episode_number = PStr ''1'', video_resolution = ''1080p'',
                    magnet_url = ''magnet:?xt=one''\<rparr>,
                   \<lparr>episode_number = PStr ''2'', video_resolution = ''1080p'',
                    magnet_url = ''magnet:?xt=two''\<rparr>],
       episode_numbers_collected = {PStr ''2'', PStr ''1''}, episodes_page_number = 2\<rparr>,
      Loop ''DONE'')"
proof -
  have neq: "{PStr ''2'', PStr ''1''} \<noteq> {PInt 1, PInt 2}" by auto
  have a: "run two_episode_web [Coordinator, Worker 0] two_episode_start =
     (\<lparr>show_id = PStr ''731'', episodes_available = Some {PInt 1, PInt 2},
       all_episodes_acquired = False,
       threads = [\<lparr>thread_name = ''ep_parse_0'', thread_args = ''page 0'',
                   thread_outcome = Some Ok\<rparr>],
       episodes = [\<lparr>episode_number = PStr ''1'', video_resolution = ''1080p'',
                    magnet_url = ''magnet:?xt=one''\<rparr>,
                   \<lparr>episode_number = PStr ''2'', video_resolution = ''1080p'',
                    magnet_url = ''magnet:?xt=two''\<rparr>],
       episode_numbers_collected = {PStr ''2'', PStr ''1''}, episodes_page_number = 1\<rparr>,
      Loop ''page 1'')"
    by (simp add: two_episode_web_def two_episode_start_def run_eval two_episode_labels neq)
  have b: "run two_episode_web [Coordinator, Worker 0, Coordinator] two_episode_start =
     (\<lparr>show_id = PStr ''731'', episodes_available = Some {PInt 1, PInt 2},
       all_episodes_acquired = False,
       threads = [\<lparr>thread_name = ''ep_parse_0'', thread_args = ''page 0'',
                   thread_outcome = Some Ok\<rparr>,
                  \<lparr>thread_name = ''ep_parse_1'', thread_args = ''page 1'',
                   thread_outcome = None\<rparr>],
       episodes = [\<lparr>episode_number = PStr ''1'', video_resolution = ''1080p'',
                    magnet_url = ''magnet:?xt=one''\<rparr>,
                   \<lparr>episode_number = PStr ''2'', video_resolution = ''1080p'',
                    magnet_url = ''magnet:?xt=two''\<rparr>],
       episode_numbers_collected = {PStr ''2'', PStr ''1''}, episodes_page_number = 2\<rparr>,
      Loop ''DONE'')"
    by (simp add: two_episode_web_def two_episode_start_def run_eval two_episode_labels neq)
  from two_episode_init a b show ?thesis by (simp only: simp_thms)
qed

section \<open>Returning from the constructor\<close>

text \<open>
  Claim C8. The source starts each thread and appends it to \<^verbatim>\<open>self.threads\<close>, but
  never joins it. On the example show the constructor's thread can dispatch page 0, fetch
  the sentinel and return while the thread for page 0 has not run: the constructor has
  returned with an empty collection and an unfinished thread, whose parse appends the
  episode only afterwards.
\<close>

theorem constructor_returns_with_unfinished_thread:
  "init example_web PNone (Some ''http://horriblesubs.info/shows/x'') = Inr example_start
   \<and> run example_web [Coordinator, Coordinator] example_start =
     (\<lparr>show_id = PStr ''731'', episodes_available = Some {PInt 1},
       all_episodes_acquired = False,
       threads = [\<lparr>thread_name = ''ep_parse_0'', thread_args = ''page 0'',
                   thread_outcome = None\<rparr>],
       episodes = [], episode_numbers_collected = {}, episodes_page_number = 1\<rparr>,
      Returned)
   \<and> episodes (fst (run example_web [Coordinator, Coordinator, Worker 0] example_start)) =
       [\<lparr>episode_number = PStr ''1'', video_resolution = ''1080p'',
         magnet_url = ''magnet:?xt=high''\<rparr>]"
  by (simp only: example_init example_return example_late_worker) simp

section \<open>No number is collected twice by the same rule\<close>

lemma collection_invariant_cong:
  "episodes s' = episodes s \<Longrightarrow> episode_numbers_collected s' = episode_numbers_collected s
   \<Longrightarrow> collection_invariant s' = collection_invariant s"
  by (simp add: collection_invariant_def)

lemma collection_invariant_add_single:
  assumes "collection_invariant s" and "PStr n \<notin> episode_numbers_collected s"
  shows "collection_invariant (add_episode (PStr n) None r m s)"
proof -
  have "PStr n \<notin> set (map episode_number (episodes s))"
  proof
    assume "PStr n \<in> set (map episode_number (episodes s))"
    then obtain e where "e \<in> set (episodes s)" "episode_number e = PStr n" by auto
    with assms(1) have "PStr n \<in> episode_numbers_collected s"
      by (auto simp: collection_invariant_def numbers_of_def)
    with assms(2) show False by simp
  qed
  with assms(1) show ?thesis
    by (auto simp: collection_invariant_def is_single_def is_range_def numbers_of_def)
qed

lemma collection_invariant_add_range:
  assumes "collection_invariant s"
    and "\<forall>e\<in>set (episodes s). episode_number e \<noteq> PList rng"
  shows "collection_invariant (add_episode PNone (Some rng) r m s)"
proof (cases "rng = []")
  case True
  with assms(1) show ?thesis
    by (auto simp: collection_invariant_def add_episode_def is_single_def is_range_def
          numbers_of_def)
next
  case False
  from assms(2) have "PList rng \<notin> set (map episode_number (episodes s))" by auto
  with assms(1) False show ?thesis
    by (auto simp: collection_invariant_def add_episode_def is_single_def is_range_def
          numbers_of_def)
qed

lemma parse_episodes_loop_invariant:
  "collection_invariant s \<Longrightarrow> collection_invariant (snd (parse_episodes_loop s ds))"
proof (induction ds arbitrary: s)
  case Nil
  then show ?case by simp
next
  case (Cons d ds)
  show ?case
  proof (cases rule: parse_episodes_loop_Cons_cases [of s d])
    case (stop e)
    with Cons.prems show ?thesis by simp
  next
    case (skip t n r)
    with Cons show ?thesis by simp
  next
    case (add t n r m)
    with Cons.prems have "collection_invariant (add_episode (PStr n) None r m s)"
      by (simp add: collection_invariant_add_single)
    from Cons.IH [OF this] add show ?thesis by simp
  qed
qed

lemma parse_batch_episodes_loop_invariant:
  "collection_invariant s \<Longrightarrow> collection_invariant (snd (parse_batch_episodes_loop s ds))"
proof (induction ds arbitrary: s)
  case Nil
  then show ?case by simp
next
  case (Cons d ds)
  show ?case
  proof (cases rule: parse_batch_episodes_loop_Cons_cases [of s d])
    case (stop e)
    with Cons.prems show ?thesis by simp
  next
    case (skip t f l r a b)
    with Cons show ?thesis by simp
  next
    case (add t f l r a b m)
    with Cons.prems have "collection_invariant (add_episode PNone (Some [a..b]) r m s)"
      by (simp add: collection_invariant_add_range)
    from Cons.IH [OF this] add show ?thesis by simp
  qed
qed

lemma parse_episodes_invariant:
  "collection_invariant s \<Longrightarrow> collection_invariant (snd (parse_episodes w s html))"
proof -
  assume inv: "collection_invariant s"
  obtain out s' where l: "parse_episodes_loop s (rev (release_links w html)) = (out, s')"
    by (cases "parse_episodes_loop s (rev (release_links w html))")
  from parse_episodes_loop_invariant [OF inv, of "rev (release_links w html)"] l
  have "collection_invariant s'" by simp
  moreover have "collection_invariant (s'\<lparr>all_episodes_acquired := True\<rparr>) = collection_invariant s'"
    by (rule collection_invariant_cong) simp_all
  ultimately show ?thesis
    using l by (cases out) (simp_all add: parse_episodes_def)
qed

lemma exec_invariant:
  "collection_invariant (fst c) \<Longrightarrow> collection_invariant (fst (exec w a c))"
proof (cases c)
  case (Pair s pc)
  assume "collection_invariant (fst c)"
  with Pair have inv: "collection_invariant s" by simp
  show ?thesis
  proof (cases a)
    case Coordinator
    show ?thesis
    proof (cases pc)
      case (Loop h)
      have "collection_invariant (fst (exec w Coordinator (s, Loop h))) = collection_invariant s"
        by (cases "h \<noteq> ''DONE'' \<and> \<not> all_episodes_acquired s")
           (auto simp: get_next_page_html_def intro!: collection_invariant_cong)
      with Pair Coordinator Loop inv show ?thesis by simp
    next
      case Returned
      with Pair Coordinator inv show ?thesis by simp
    qed
  next
    case (Worker i)
    show ?thesis
    proof (cases "i < length (threads s) \<and> thread_outcome (threads s ! i) = None")
      case True
      obtain out s1 where p: "parse_episodes w s (thread_args (threads s ! i)) = (out, s1)"
        by (cases "parse_episodes w s (thread_args (threads s ! i))")
      from parse_episodes_invariant [OF inv, of w "thread_args (threads s ! i)"] p
      have "collection_invariant s1" by simp
      moreover have "collection_invariant
           (s1\<lparr>threads := (threads s1)[i := (threads s1 ! i)\<lparr>thread_outcome := Some out\<rparr>]\<rparr>)
         = collection_invariant s1"
        by (rule collection_invariant_cong) simp_all
      ultimately show ?thesis using Pair Worker True p by simp
    next
      case False
      with Pair Worker inv show ?thesis by auto
    qed
  qed
qed

lemma run_invariant:
  "collection_invariant (fst c) \<Longrightarrow> collection_invariant (fst (run w sched c))"
  by (induction sched arbitrary: c) (simp_all add: exec_invariant)

lemma init_invariant:
  assumes "init w sid show_url = Inr c0"
  shows "collection_invariant (fst c0)"
proof -
  from assms obtain g av where
    c0: "(case parse_batch_episodes w
            \<lparr>show_id = g, episodes_available = av, all_episodes_acquired = False, threads = [],
             episodes = [], episode_numbers_collected = {}, episodes_page_number = 0\<rparr>
            (get_html w (episodes_url ''batch'' g)) of
          (Raise e, s') \<Rightarrow> Inl e
        | (Ok, s') \<Rightarrow> if set_truthy (episodes_available s')
                       then Inr (parse_all_in_parallel_enter w s') else Inr (s', Returned)) = Inr c0"
    by (auto simp: init_def Let_def split: sum.splits)
  let ?s = "\<lparr>show_id = g, episodes_available = av, all_episodes_acquired = False, threads = [],
             episodes = [], episode_numbers_collected = {}, episodes_page_number = 0\<rparr>"
  obtain out s1 where b: "parse_batch_episodes w ?s (get_html w (episodes_url ''batch'' g)) = (out, s1)"
    by (cases "parse_batch_episodes w ?s (get_html w (episodes_url ''batch'' g))")
  have "collection_invariant ?s"
    by (simp add: collection_invariant_def)
  from parse_batch_episodes_loop_invariant
    [OF this, of "rev (release_links w (get_html w (episodes_url ''batch'' g)))"] b
  have inv: "collection_invariant s1"
    by (simp add: parse_batch_episodes_def)
  have "collection_invariant (fst (parse_all_in_parallel_enter w s1)) = collection_invariant s1"
    by (auto simp: parse_all_in_parallel_enter_def get_next_page_html_def
          intro!: collection_invariant_cong)
  with inv c0 b show ?thesis
    by (cases out) (auto split: if_splits)
qed

text \<open>
  In every interleaving the threads append single-episode entries only, so the entries that
  carry a range are those of the batch phase.
\<close>

lemma worker_step_ranges:
  "filter is_range (map episode_number (episodes (fst (worker_step s wk)))) =
   filter is_range (map episode_number (episodes s))"
proof (cases wk)
  case (AtTest ds)
  then show ?thesis
    by (cases ds) (auto split: i_tag.splits option.splits)
next
  case (AtAppend d n r ds)
  then show ?thesis by (auto simp: is_range_def split: sum.splits)
next
  case (AtCollect n ds)
  then show ?thesis by simp
next
  case (Finished out)
  then show ?thesis by simp
qed

lemma exec_Coordinator_episodes:
  "episodes (fst (exec w Coordinator c)) = episodes (fst c)"
proof (cases c)
  case (Pair s pc)
  then show ?thesis
    by (cases pc) (auto simp: get_next_page_html_def)
qed

lemma fine_exec_ranges:
  "filter is_range (map episode_number (episodes (fst (fine_exec w a c)))) =
   filter is_range (map episode_number (episodes (fst c)))"
proof -
  obtain s pc ws where c: "c = (s, pc, ws)" by (cases c)
  show ?thesis
  proof (cases a)
    case Coordinator
    show ?thesis
    proof (cases pc)
      case (Loop h)
      have "episodes (fst (exec w Coordinator (s, Loop h))) = episodes s"
        using exec_Coordinator_episodes [of w "(s, Loop h)"] by simp
      with c Coordinator Loop show ?thesis
        by (auto split: prod.splits)
    next
      case Returned
      with c Coordinator show ?thesis by simp
    qed
  next
    case (Worker i)
    show ?thesis
    proof (cases "i < length ws")
      case True
      with c Worker worker_step_ranges [of s "ws ! i"] show ?thesis
        by (auto split: prod.splits)
    next
      case False
      with c Worker show ?thesis by simp
    qed
  qed
qed

lemma fine_run_ranges:
  "filter is_range (map episode_number (episodes (fst (fine_run w sched c)))) =
   filter is_range (map episode_number (episodes (fst c)))"
  by (induction sched arbitrary: c) (simp_all add: fine_exec_ranges)

text \<open>A thread that runs alone from its start to its end does what \<open>parse_episodes\<close> does.\<close>

lemma fine_run_Finished:
  "i < length ws \<Longrightarrow> ws ! i = Finished out
   \<Longrightarrow> fine_run w (replicate k (Worker i)) (s, pc, ws) = (s, pc, ws)"
proof (induction k)
  case 0
  then show ?case by simp
next
  case (Suc k)
  from Suc.prems have "ws[i := Finished out] = ws"
    by (metis list_update_id)
  with Suc show ?case by simp
qed

lemma fine_run_worker_alone:
  "i < length ws \<Longrightarrow> ws ! i = AtTest ds \<Longrightarrow> 3 * length ds + 1 \<le> k
   \<Longrightarrow> fine_run w (replicate k (Worker i)) (s, pc, ws) =
       (case parse_episodes_loop s ds of
          (Raise e, s') \<Rightarrow> (s', pc, ws[i := Finished (Raise e)])
        | (Ok, s') \<Rightarrow>
            (if Some (episode_numbers_collected s') = episodes_available s'
             then s'\<lparr>all_episodes_acquired := True\<rparr> else s',
             pc, ws[i := Finished Ok]))"
proof (induction ds arbitrary: s ws k)
  case Nil
  then obtain k' where k: "k = Suc k'" by (cases k) auto
  have "fine_exec w (Worker i) (s, pc, ws) =
      (if Some (episode_numbers_collected s) = episodes_available s
       then s\<lparr>all_episodes_acquired := True\<rparr> else s, pc, ws[i := Finished Ok])"
    using Nil.prems by simp
  moreover have "fine_run w (replicate k' (Worker i))
      (if Some (episode_numbers_collected s) = episodes_available s
       then s\<lparr>all_episodes_acquired := True\<rparr> else s, pc, ws[i := Finished Ok]) =
      (if Some (episode_numbers_collected s) = episodes_available s
       then s\<lparr>all_episodes_acquired := True\<rparr> else s, pc, ws[i := Finished Ok])"
    using Nil.prems by (intro fine_run_Finished) simp_all
  ultimately show ?case by (simp add: k)
next
  case (Cons d ds)
  from Cons.prems obtain k1 where k: "k = Suc k1" and k1: "3 * length ds + 3 \<le> k1"
    by (cases k) auto
  have done_now: "fine_run w (replicate k1 (Worker i)) (s, pc, ws[i := Finished out]) =
      (s, pc, ws[i := Finished out])" for out
    using Cons.prems by (intro fine_run_Finished) simp_all
  show ?case
  proof (cases "i_tag d")
    case NoITag
    with Cons.prems done_now show ?thesis by (simp add: k)
  next
    case NoString
    with Cons.prems done_now show ?thesis by (simp add: k)
  next
    case (Text t)
    show ?thesis
    proof (cases "episode_data_regex t")
      case None
      with Text Cons.prems done_now show ?thesis by (simp add: k)
    next
      case (Some p)
      obtain n r where p: "p = (n, r)" by (cases p)
      show ?thesis
      proof (cases "PStr n \<in> episode_numbers_collected s")
        case True
        have step: "fine_exec w (Worker i) (s, pc, ws) = (s, pc, ws[i := AtTest ds])"
          using Cons.prems Text Some p True by simp
        have "fine_run w (replicate k1 (Worker i)) (s, pc, ws[i := AtTest ds]) =
           (case parse_episodes_loop s ds of
              (Raise e, s') \<Rightarrow> (s', pc, ws[i := Finished (Raise e)])
            | (Ok, s') \<Rightarrow>
              (if Some (episode_numbers_collected s') = episodes_available s'
               then s'\<lparr>all_episodes_acquired := True\<rparr> else s',
               pc, ws[i := Finished Ok]))"
          using Cons.IH [of "ws[i := AtTest ds]" k1 s] Cons.prems k1
          by (auto split: prod.splits outcome.splits)
        with step Text Some p True show ?thesis by (simp add: k del: fine_exec.simps)
      next
        case False
        have step1: "fine_exec w (Worker i) (s, pc, ws) = (s, pc, ws[i := AtAppend d n r ds])"
          using Cons.prems Text Some p False by simp
        obtain k2 where k2: "k1 = Suc k2" and k2': "3 * length ds + 2 \<le> k2"
          using k1 by (cases k1) auto
        show ?thesis
        proof (cases "magnet_href d")
          case (Inl e)
          have step2: "fine_exec w (Worker i) (s, pc, ws[i := AtAppend d n r ds]) =
              (s, pc, ws[i := Finished (Raise e)])"
            using Cons.prems Inl by simp
          have "fine_run w (replicate k2 (Worker i)) (s, pc, ws[i := Finished (Raise e)]) =
              (s, pc, ws[i := Finished (Raise e)])"
            using Cons.prems by (intro fine_run_Finished) simp_all
          with step1 step2 Text Some p False Inl show ?thesis by (simp add: k k2)
        next
          case (Inr m)
          let ?s1 = "s\<lparr>episodes := episodes s @
               [\<lparr>episode_number = PStr n, video_resolution = r, magnet_url = m\<rparr>]\<rparr>"
          let ?s2 = "add_episode (PStr n) None r m s"
          obtain k3 where k3: "k2 = Suc k3" and k3': "3 * length ds + 1 \<le> k3"
            using k2' by (cases k2) auto
          have step2: "fine_exec w (Worker i) (s, pc, ws[i := AtAppend d n r ds]) =
              (?s1, pc, ws[i := AtCollect n ds])"
            using Cons.prems Inr by simp
          have step3: "fine_exec w (Worker i) (?s1, pc, ws[i := AtCollect n ds]) =
              (?s2, pc, ws[i := AtTest ds])"
            using Cons.prems by (simp add: add_episode_def)
          have "fine_run w (replicate k3 (Worker i)) (?s2, pc, ws[i := AtTest ds]) =
           (case parse_episodes_loop ?s2 ds of
              (Raise e, s') \<Rightarrow> (s', pc, ws[i := Finished (Raise e)])
            | (Ok, s') \<Rightarrow>
              (if Some (episode_numbers_collected s') = episodes_available s'
               then s'\<lparr>all_episodes_acquired := True\<rparr> else s',
               pc, ws[i := Finished Ok]))"
            using Cons.IH [of "ws[i := AtTest ds]" k3 ?s2] Cons.prems k3'
            by (auto split: prod.splits outcome.splits)
          with step1 step2 step3 Text Some p False Inr show ?thesis
            by (simp add: k k2 k3 del: fine_exec.simps)
        qed
      qed
    qed
  qed
qed

lemma fine_run_worker_is_parse_episodes:
  assumes "i < length ws" and "ws ! i = AtTest (rev (release_links w html))"
    and "3 * length (release_links w html) + 1 \<le> k"
    and "parse_episodes w s html = (out, s1)"
  shows "fine_run w (replicate k (Worker i)) (s, pc, ws) = (s1, pc, ws[i := Finished out])"
proof -
  obtain o' s' where l: "parse_episodes_loop s (rev (release_links w html)) = (o', s')"
    by (cases "parse_episodes_loop s (rev (release_links w html))")
  from fine_run_worker_alone [OF assms(1,2), of k w s pc] assms(3) l
  have "fine_run w (replicate k (Worker i)) (s, pc, ws) =
       (case (o', s') of
          (Raise e, s') \<Rightarrow> (s', pc, ws[i := Finished (Raise e)])
        | (Ok, s') \<Rightarrow>
            (if Some (episode_numbers_collected s') = episodes_available s'
             then s'\<lparr>all_episodes_acquired := True\<rparr> else s',
             pc, ws[i := Finished Ok]))"
    by simp
  with assms(4) l show ?thesis
    by (cases o') (auto simp: parse_episodes_def)
qed

text \<open>
  Claim C1, as the code has it. A single-episode block whose numeral is among the collected
  numbers when it is tested is skipped; a batch block whose range is already the range of an
  entry is skipped. In every configuration that a run of the constructor reaches with page
  parses executing one at a time, no two entries carry the same episode numeral, no two
  entries carry the same range, and every number of every entry is among the collected
  numbers. In every configuration reached with page parses interleaving in any way, no two
  entries carry the same range.
\<close>

theorem collected_numbers_guard_the_collection:
  "(i_tag d = Text t \<and> episode_data_regex t = Some (n, r)
      \<and> PStr n \<in> episode_numbers_collected s
     \<longrightarrow> parse_episodes_loop s (d # ds) = parse_episodes_loop s ds
         \<and> worker_step s (AtTest (d # ds)) = (s, AtTest ds))
   \<and> (i_tag d = Text t \<and> batch_episodes_data_regex t = Some (f, l, r)
      \<and> py_int f = Inr a \<and> py_int l = Inr b
      \<and> (\<exists>e\<in>set (episodes s). episode_number e = PList [a..b])
     \<longrightarrow> parse_batch_episodes_loop s (d # ds) = parse_batch_episodes_loop s ds)
   \<and> (init w sid show_url = Inr c0
     \<longrightarrow> collection_invariant (fst (run w sched c0))
         \<and> distinct (filter is_range (map episode_number
              (episodes (fst (fine_run w fine_sched (fst c0, snd c0, [])))))))"
proof (intro conjI impI)
  assume h: "i_tag d = Text t \<and> episode_data_regex t = Some (n, r)
      \<and> PStr n \<in> episode_numbers_collected s"
  then show "parse_episodes_loop s (d # ds) = parse_episodes_loop s ds"
    by simp
  from h show "worker_step s (AtTest (d # ds)) = (s, AtTest ds)"
    by simp
next
  assume "i_tag d = Text t \<and> batch_episodes_data_regex t = Some (f, l, r)
      \<and> py_int f = Inr a \<and> py_int l = Inr b
      \<and> (\<exists>e\<in>set (episodes s). episode_number e = PList [a..b])"
  then show "parse_batch_episodes_loop s (d # ds) = parse_batch_episodes_loop s ds"
    by (auto simp: py_range_def)
next
  assume i: "init w sid show_url = Inr c0"
  then have inv: "collection_invariant (fst c0)" by (rule init_invariant)
  then show "collection_invariant (fst (run w sched c0))" by (rule run_invariant)
  from inv have "distinct (filter is_range (map episode_number (episodes (fst c0))))"
    by (simp add: collection_invariant_def)
  then show "distinct (filter is_range (map episode_number
              (episodes (fst (fine_run w fine_sched (fst c0, snd c0, []))))))"
    by (simp add: fine_run_ranges)
qed

lemma example_page_parsed:
  "map episode_number
     (episodes (fst (run example_web [Coordinator, Worker 0, Coordinator] example_start))) =
   [PStr ''1'']"
proof -
  have label: "episode_data_regex ''Show - 1 [1080p]'' = Some (''1'', ''1080p'')"
     "episode_data_regex ''Show - 1 [480p]'' = Some (''1'', ''480p'')"
    by (simp_all add: regex_eval)
  show ?thesis
    by (simp add: example_web_def example_start_def run_eval label)
qed

theorem collected_numbers_guard_the_collection_witness:
  "init example_web PNone (Some ''http://horriblesubs.info/shows/x'') = Inr example_start
   \<and> collection_invariant
        (fst (run example_web [Coordinator, Worker 0, Coordinator] example_start))
   \<and> map episode_number
        (episodes (fst (run example_web [Coordinator, Worker 0, Coordinator] example_start))) =
      [PStr ''1'']
   \<and> distinct (filter is_range (map episode_number
        (episodes (fst (fine_run example_web [Coordinator, Worker 0, Worker 0, Worker 0]
           (fst example_start, snd example_start, []))))))"
proof -
  have "collection_invariant
        (fst (run example_web [Coordinator, Worker 0, Coordinator] example_start))
     \<and> distinct (filter is_range (map episode_number
        (episodes (fst (fine_run example_web [Coordinator, Worker 0, Worker 0, Worker 0]
           (fst example_start, snd example_start, []))))))"
    using collected_numbers_guard_the_collection
      [of _ _ _ _ _ _ _ _ _ _ example_web PNone "Some ''http://horriblesubs.info/shows/x''"
          example_start "[Coordinator, Worker 0, Coordinator]"
          "[Coordinator, Worker 0, Worker 0, Worker 0]",
       THEN conjunct2, THEN conjunct2]
      example_init
    by blast
  with example_init example_page_parsed show ?thesis by simp
qed

text \<open>
  The claim as worded fails on the show with four episodes. The two batch blocks have
  different, overlapping ranges and are both kept, so the integers 1 and 2 belong to two
  entries. And the threads for page 0 and page 1 both test the numeral 4 before either has
  added it, so episode 4 is appended twice.
\<close>

lemma race_init:
  "init race_web PNone (Some ''http://horriblesubs.info/shows/x'') = Inr race_start"
proof -
  let ?s = "\<lparr>show_id = PStr ''731'',
          episodes_available = Some {PInt 1, PInt 2, PInt 3, PInt 4},
          all_episodes_acquired = False, threads = [],
          episodes = [], episode_numbers_collected = {}, episodes_page_number = 0\<rparr>"
  have label: "episode_data_regex ''Show - 4 [1080p]'' = Some (''4'', ''1080p'')"
    by (simp add: regex_eval)
  have batch_labels:
    "batch_episodes_data_regex ''Show (1-3) [1080p]'' = Some (''1'', ''3'', ''1080p'')"
    "batch_episodes_data_regex ''Show (1-2) [1080p]'' = Some (''1'', ''2'', ''1080p'')"
    by (simp_all add: regex_eval)
  have ints: "py_int ''1'' = Inr 1" "py_int ''2'' = Inr 2" "py_int ''3'' = Inr 3"
    "py_int ''4'' = Inr 4"
    by (simp_all add: py_int_def is_digit_def digit_val_def)
  have sid: "resolve_show_id race_web PNone (Some ''http://horriblesubs.info/shows/x'')
      = Inr (PStr ''731'')"
    by (simp add: resolve_show_id_def url_truthy_def url_text_def get_show_id_from_url_def
          race_web_def web_of_def regex_eval)
  have av: "compute_episodes_available race_web (episodes_url ''show'' (PStr ''731''))
      = Inr (Some {PInt 1, PInt 2, PInt 3, PInt 4})"
    by (simp add: compute_episodes_available_def get_most_recent_episode_number_def
          race_web_def run_eval label ints py_range_def upto.simps)
  have batch: "parse_batch_episodes race_web ?s
        (get_html race_web (episodes_url ''batch'' (PStr ''731''))) = (Ok, fst race_start)"
    by (simp add: parse_batch_episodes_def race_web_def race_start_def web_of_def
          episodes_url_def blk_def batch_labels ints py_range_def upto.simps magnet_href_def
          add_episode_def insert_commute)
  have enter: "parse_all_in_parallel_enter race_web (fst race_start) = race_start"
    by (simp add: parse_all_in_parallel_enter_def race_web_def race_start_def run_eval)
  have truthy: "set_truthy (episodes_available (fst race_start))"
    by (simp add: set_truthy_def race_start_def)
  show ?thesis
    by (simp add: init_def sid av batch enter truthy)
qed

lemma race_run:
  "map episode_number (episodes (fst (fine_run race_web
      [Coordinator, Coordinator, Worker 0, Worker 1, Worker 0, Worker 0, Worker 1, Worker 1,
       Worker 0, Worker 1]
      (fst race_start, snd race_start, [])))) =
   [PList [1, 2], PList [1, 2, 3], PStr ''4'', PStr ''4'']"
proof -
  have label: "episode_data_regex ''Show - 4 [1080p]'' = Some (''4'', ''1080p'')"
    by (simp add: regex_eval)
  show ?thesis
    by (simp add: race_web_def race_start_def run_eval label)
qed

theorem number_in_two_entries_counterexample:
  "init race_web PNone (Some ''http://horriblesubs.info/shows/x'') = Inr race_start
   \<and> map episode_number (episodes (fst (fine_run race_web
      [Coordinator, Coordinator, Worker 0, Worker 1, Worker 0, Worker 0, Worker 1, Worker 1,
       Worker 0, Worker 1]
      (fst race_start, snd race_start, [])))) =
     [PList [1, 2], PList [1, 2, 3], PStr ''4'', PStr ''4'']"
  using race_init race_run by (simp only: simp_thms)

text \<open>
  Numerals are collected as strings and the integers of a range as integers, so a single
  episode is not skipped on account of a batch that contains it.
\<close>

lemma single_episode_not_checked_against_batch_numbers:
  "parse_episodes
      (web_of [] [(''page'', [blk ''Show - 1 [1080p]'' ''magnet:?xt=one''])])
      \<lparr>show_id = PStr ''731'', episodes_available = Some {PInt 1, PInt 2},
       all_episodes_acquired = False, threads = [],
       episodes = [\<lparr>episode_number = PList [1, 2], video_resolution = ''1080p'',
                    magnet_url = ''magnet:?xt=batch''\<rparr>],
       episode_numbers_collected = {PInt 1, PInt 2}, episodes_page_number = 0\<rparr>
      ''page''
   = (Ok, \<lparr>show_id = PStr ''731'', episodes_available = Some {PInt 1, PInt 2},
       all_episodes_acquired = False, threads = [],
       episodes = [\<lparr>episode_number = PList [1, 2], video_resolution = ''1080p'',
                    magnet_url = ''magnet:?xt=batch''\<rparr>,
                   \<lparr>episode_number = PStr ''1'', video_resolution = ''1080p'',
                    magnet_url = ''magnet:?xt=one''\<rparr>],
       episode_numbers_collected = {PStr ''1'', PInt 1, PInt 2}, episodes_page_number = 0\<rparr>)"
  by (simp add: parse_episodes_def web_of_def blk_def regex_eval magnet_href_def add_episode_def)
     blast

end
